theory Spec2Isabelle
  imports Complex_Main "HOL-Library.AList"
begin

section \<open>RefactorForge pattern extractor: data model\<close>

text \<open>
  The development embeds \<^verbatim>\<open>backend/pattern-extractor.py\<close>. Python strings are
  \<^typ>\<open>string\<close> (lists of 8-bit characters, so code points above 255 are outside the
  model), Python's unbounded non-negative integers are \<^typ>\<open>nat\<close>, the float
  confidence scores are \<^typ>\<open>real\<close> (only the exact decimal literals of the source are
  ever compared), \<^verbatim>\<open>Optional[str]\<close> is \<^typ>\<open>string option\<close>, a dict whose
  insertion order matters is an association list.
\<close>

datatype PatternCategory =
  PERFORMANCE | TYPE_SAFETY | ARCHITECTURE | ERROR_HANDLING
  | ASYNC_PATTERNS | REACT_PATTERNS | FILE_OPERATIONS | CODE_QUALITY

fun category_value :: "PatternCategory \<Rightarrow> string" where
  "category_value PERFORMANCE = ''performance''"
| "category_value TYPE_SAFETY = ''type-safety''"
| "category_value ARCHITECTURE = ''architecture''"
| "category_value ERROR_HANDLING = ''error-handling''"
| "category_value ASYNC_PATTERNS = ''async-patterns''"
| "category_value REACT_PATTERNS = ''react-patterns''"
| "category_value FILE_OPERATIONS = ''file-operations''"
| "category_value CODE_QUALITY = ''code-quality''"

datatype PatternSeverity = LOW | MEDIUM | HIGH | CRITICAL

fun severity_value :: "PatternSeverity \<Rightarrow> real" where
  "severity_value LOW = 0.3"
| "severity_value MEDIUM = 0.6"
| "severity_value HIGH = 0.9"
| "severity_value CRITICAL = 1.0"

text \<open>
  Values of the open \<^verbatim>\<open>metadata\<close> dict. \<^verbatim>\<open>list(group_data['files'])\<close> lists a
  Python set in an order the language does not fix, so the stored value is kept as a set.
\<close>

datatype meta_value = MInt nat | MFiles "string set"

record CodePattern =
  pattern_type :: string
  pattern_content :: string
  description :: string
  category :: PatternCategory
  subcategory :: "string option"
  file_path :: string
  line_start :: nat
  line_end :: nat
  language :: string
  framework :: "string option"
  confidence_score :: real
  usage_count :: nat
  context_before :: string
  context_after :: string
  tags :: "string list"
  metadata :: "(string \<times> meta_value) list"

subsection \<open>Pattern hash\<close>

text \<open>
  \<^verbatim>\<open>content = f"{self.pattern_type}:{self.pattern_content}:{self.category.value}"\<close>
  and \<^verbatim>\<open>hashlib.md5(content.encode()).hexdigest()\<close>. The digest is the standard
  library's; it is a parameter \<open>md5\<close> of the model, of which nothing is assumed.
\<close>

definition hash_content :: "CodePattern \<Rightarrow> string" where
  "hash_content p =
     pattern_type p @ '':'' @ pattern_content p @ '':'' @ category_value (category p)"

definition pattern_hash :: "(string \<Rightarrow> 'h) \<Rightarrow> CodePattern \<Rightarrow> 'h" where
  "pattern_hash md5 p = md5 (hash_content p)"

text \<open>The identity the specification attributes to a hash: rule id, matched text, category.\<close>

definition pattern_key :: "CodePattern \<Rightarrow> string \<times> string \<times> PatternCategory" where
  "pattern_key p = (pattern_type p, pattern_content p, category p)"

text \<open>An occurrence with the dataclass defaults, for concrete inputs.\<close>

definition mk_pattern :: "string \<Rightarrow> string \<Rightarrow> PatternCategory \<Rightarrow> string \<Rightarrow> CodePattern" where
  "mk_pattern t c cat f =
     \<lparr>pattern_type = t, pattern_content = c, description = '''', category = cat,
      subcategory = None, file_path = f, line_start = 1, line_end = 1,
      language = ''typescript'', framework = None, confidence_score = 0.3,
      usage_count = 1, context_before = '''', context_after = '''', tags = [],
      metadata = []\<rparr>"

section \<open>Aggregation by hash\<close>

text \<open>
  The grouping loop of \<^verbatim>\<open>save_patterns_to_database\<close>. \<^verbatim>\<open>pattern_groups\<close> is a
  dict from hash to \<^verbatim>\<open>{'pattern', 'count', 'files'}\<close>; Python dicts keep insertion
  order, so it is an association list that grows at its end.
\<close>

record group_data =
  pattern :: CodePattern
  count :: nat
  files :: "string set"

definition group_step ::
  "(string \<Rightarrow> 'h) \<Rightarrow> ('h \<times> group_data) list \<Rightarrow> CodePattern \<Rightarrow> ('h \<times> group_data) list"
where
  "group_step md5 pattern_groups p =
     (let hash_key = pattern_hash md5 p;
          groups1 =
            (if map_of pattern_groups hash_key = None
             then pattern_groups @ [(hash_key, \<lparr>pattern = p, count = 0, files = {}\<rparr>)]
             else pattern_groups)
      in AList.map_entry hash_key
           (\<lambda>g. g\<lparr>count := count g + 1, files := insert (file_path p) (files g)\<rparr>)
           groups1)"

definition group_patterns ::
  "(string \<Rightarrow> 'h) \<Rightarrow> CodePattern list \<Rightarrow> ('h \<times> group_data) list"
where
  "group_patterns md5 patterns = foldl (group_step md5) [] patterns"

text \<open>The occurrences of the input that carry a given hash, in input order.\<close>

definition with_hash :: "(string \<Rightarrow> 'h) \<Rightarrow> 'h \<Rightarrow> CodePattern list \<Rightarrow> CodePattern list" where
  "with_hash md5 h patterns = filter (\<lambda>q. pattern_hash md5 q = h) patterns"

section \<open>Persistence\<close>

text \<open>
  One row of the table \<^verbatim>\<open>repository_patterns\<close>. The columns
  \<^verbatim>\<open>pattern_type\<close> to \<^verbatim>\<open>metadata\<close> of the \<^verbatim>\<open>INSERT\<close> are the fields of the
  representative occurrence, kept together as \<open>columns\<close>; its \<^verbatim>\<open>usage_count\<close> column
  is the group's count. \<^verbatim>\<open>uuid.uuid4()\<close> and the two calls of \<^verbatim>\<open>datetime.now()\<close> are
  inputs of the model: \<open>env k\<close> gives them for the \<open>k\<close>-th \<^verbatim>\<open>INSERT\<close> of a run.
\<close>

record 'h db_row =
  row_id :: string
  repository_id :: string
  row_hash :: 'h
  columns :: CodePattern
  created_at :: string
  updated_at :: string

type_synonym 'h table = "'h db_row list"

type_synonym env = "nat \<Rightarrow> string \<times> string \<times> string"

text \<open>
  \<^verbatim>\<open>pattern.metadata['file_count'] = len(group_data['files'])\<close> and
  \<^verbatim>\<open>pattern.metadata['files'] = list(group_data['files'])\<close>, then the tuple of the
  \<^verbatim>\<open>INSERT\<close>. The two assignments change the representative object, which is also
  an element of \<^verbatim>\<open>self.patterns\<close>; nothing reads that list afterwards, so the model
  does not return it.
\<close>

definition fold_file_metadata :: "group_data \<Rightarrow> CodePattern" where
  "fold_file_metadata g =
     (pattern g)\<lparr>metadata :=
        AList.update ''files'' (MFiles (files g))
          (AList.update ''file_count'' (MInt (card (files g))) (metadata (pattern g)))\<rparr>"

definition make_row ::
  "(string \<Rightarrow> 'h) \<Rightarrow> string \<times> string \<times> string \<Rightarrow> string \<Rightarrow> group_data \<Rightarrow> 'h db_row"
where
  "make_row md5 e rid g =
     (let p = fold_file_metadata g
      in \<lparr>row_id = fst e, repository_id = rid, row_hash = pattern_hash md5 p,
          columns = p\<lparr>usage_count := count g\<rparr>,
          created_at = fst (snd e), updated_at = snd (snd e)\<rparr>)"

text \<open>
  The sqlite3 connection. Python's module opens a transaction before the first
  \<^verbatim>\<open>DELETE\<close> or \<^verbatim>\<open>INSERT\<close>; until \<^verbatim>\<open>commit\<close> the statements change only the
  connection's working copy \<open>txn\<close>, and \<open>disk\<close> is what every other reader of the
  database file sees. \<^verbatim>\<open>rollback\<close> and \<^verbatim>\<open>close\<close> drop the working copy.
\<close>

record 'h connection =
  disk :: "'h table"
  txn :: "'h table option"

definition connect :: "'h table \<Rightarrow> 'h connection" where
  "connect t = \<lparr>disk = t, txn = None\<rparr>"

definition working :: "'h connection \<Rightarrow> 'h table" where
  "working c = (case txn c of None \<Rightarrow> disk c | Some w \<Rightarrow> w)"

definition execute :: "('h table \<Rightarrow> 'h table) \<Rightarrow> 'h connection \<Rightarrow> 'h connection" where
  "execute stmt c = c\<lparr>txn := Some (stmt (working c))\<rparr>"

definition commit :: "'h connection \<Rightarrow> 'h connection" where
  "commit c = \<lparr>disk = working c, txn = None\<rparr>"

definition rollback :: "'h connection \<Rightarrow> 'h connection" where
  "rollback c = c\<lparr>txn := None\<rparr>"

definition close :: "'h connection \<Rightarrow> 'h table" where
  "close c = disk c"

text \<open>The two statements of the source.\<close>

definition delete_repository :: "string \<Rightarrow> 'h table \<Rightarrow> 'h table" where
  "delete_repository rid t = filter (\<lambda>r. repository_id r \<noteq> rid) t"

definition insert_row :: "'h db_row \<Rightarrow> 'h table \<Rightarrow> 'h table" where
  "insert_row r t = t @ [r]"

text \<open>
  Every database call can raise (\<^verbatim>\<open>sqlite3.Error\<close>); which ones do is the parameter
  \<open>fails\<close>. \<open>Insert k\<close> is the \<open>k\<close>-th \<^verbatim>\<open>INSERT\<close> of the run, counted from 0.
\<close>

datatype db_op = Connect | Delete | Insert nat | Commit

datatype outcome = Returned | Raised_UnboundLocalError

text \<open>The loop over \<^verbatim>\<open>pattern_groups.items()\<close>; \<open>Inl\<close> is the raised exception.\<close>

fun insert_groups ::
  "(string \<Rightarrow> 'h) \<Rightarrow> env \<Rightarrow> (db_op \<Rightarrow> bool) \<Rightarrow> string \<Rightarrow> nat \<Rightarrow>
   ('h \<times> group_data) list \<Rightarrow> 'h connection \<Rightarrow> 'h connection + 'h connection"
where
  "insert_groups md5 env fails rid k [] c = Inr c"
| "insert_groups md5 env fails rid k ((hash_key, g) # gs) c =
     (if fails (Insert k) then Inl c
      else insert_groups md5 env fails rid (Suc k) gs
             (execute (insert_row (make_row md5 (env k) rid g)) c))"

text \<open>
  The body of the \<^verbatim>\<open>try\<close> block after the connection is open: \<open>Inl c\<close> when a
  statement raised with the connection in state \<open>c\<close>, \<open>Inr c\<close> after a successful
  \<^verbatim>\<open>commit\<close>.
\<close>

definition save_transaction ::
  "(string \<Rightarrow> 'h) \<Rightarrow> env \<Rightarrow> (db_op \<Rightarrow> bool) \<Rightarrow> string \<Rightarrow> CodePattern list \<Rightarrow>
   'h connection \<Rightarrow> 'h connection + 'h connection"
where
  "save_transaction md5 env fails rid patterns c =
     (if fails Delete then Inl c
      else
        (let c1 = execute (delete_repository rid) c;
             pattern_groups = group_patterns md5 patterns
         in case insert_groups md5 env fails rid 0 pattern_groups c1 of
              Inl c2 \<Rightarrow> Inl c2
            | Inr c2 \<Rightarrow> if fails Commit then Inl c2 else Inr (commit c2)))"

text \<open>
  \<^verbatim>\<open>save_patterns_to_database\<close>: the outcome of the call and the table on disk after
  it. With no occurrence it returns before it opens the database. When
  \<^verbatim>\<open>sqlite3.connect\<close> itself raises, \<^verbatim>\<open>conn\<close> was never bound and the handler's
  \<^verbatim>\<open>if conn:\<close> raises \<^verbatim>\<open>UnboundLocalError\<close>. Any other exception is caught:
  \<^verbatim>\<open>conn.rollback()\<close>, then \<^verbatim>\<open>conn.close()\<close> in the \<^verbatim>\<open>finally\<close> block.
\<close>

definition save_patterns_to_database ::
  "(string \<Rightarrow> 'h) \<Rightarrow> env \<Rightarrow> (db_op \<Rightarrow> bool) \<Rightarrow> string \<Rightarrow> CodePattern list \<Rightarrow>
   'h table \<Rightarrow> outcome \<times> 'h table"
where
  "save_patterns_to_database md5 env fails rid patterns t =
     (if patterns = [] then (Returned, t)
      else if fails Connect then (Raised_UnboundLocalError, t)
      else
        (case save_transaction md5 env fails rid patterns (connect t) of
           Inl c \<Rightarrow> (Returned, close (rollback c))
         | Inr c \<Rightarrow> (Returned, close c)))"

text \<open>The rows a run writes when nothing fails, in the order of the groups.\<close>

fun new_rows ::
  "(string \<Rightarrow> 'h) \<Rightarrow> env \<Rightarrow> string \<Rightarrow> nat \<Rightarrow> ('h \<times> group_data) list \<Rightarrow> 'h table"
where
  "new_rows md5 env rid k [] = []"
| "new_rows md5 env rid k ((hash_key, g) # gs) =
     make_row md5 (env k) rid g # new_rows md5 env rid (Suc k) gs"

text \<open>Whether some database call of a run with \<open>n\<close> groups raises.\<close>

definition faulty :: "(db_op \<Rightarrow> bool) \<Rightarrow> nat \<Rightarrow> bool" where
  "faulty fails n \<longleftrightarrow>
     fails Connect \<or> fails Delete \<or> (\<exists>i < n. fails (Insert i)) \<or> fails Commit"

subsection \<open>Example inputs\<close>

definition example_patterns :: "CodePattern list" where
  "example_patterns =
     [mk_pattern ''destructuring'' ''const {a, b} ='' ARCHITECTURE ''a.ts'',
      mk_pattern ''await_usage'' ''await'' ASYNC_PATTERNS ''a.ts'',
      mk_pattern ''destructuring'' ''const {a, b} ='' ARCHITECTURE ''b.ts'']"

definition colliding_patterns :: "CodePattern list" where
  "colliding_patterns =
     [mk_pattern ''a:b'' ''c'' PERFORMANCE ''x.ts'',
      mk_pattern ''a'' ''b:c'' PERFORMANCE ''y.ts'']"

definition example_table :: "string table" where
  "example_table =
     [\<lparr>row_id = ''r1'', repository_id = ''repo'', row_hash = ''h1'',
       columns = mk_pattern ''await_usage'' ''await'' ASYNC_PATTERNS ''a.ts'',
       created_at = ''t0'', updated_at = ''t0''\<rparr>,
      \<lparr>row_id = ''r2'', repository_id = ''repo'', row_hash = ''h2'',
       columns = mk_pattern ''console_statements'' ''console.log'' CODE_QUALITY ''a.ts'',
       created_at = ''t0'', updated_at = ''t0''\<rparr>,
      \<lparr>row_id = ''r3'', repository_id = ''other'', row_hash = ''h1'',
       columns = mk_pattern ''await_usage'' ''await'' ASYNC_PATTERNS ''b.ts'',
       created_at = ''t0'', updated_at = ''t0''\<rparr>]"

definition example_env :: env where
  "example_env k = (''new'', ''t1'', ''t1'')"

section \<open>Text utilities of the Python runtime\<close>

text \<open>
  The pieces of \<^verbatim>\<open>str\<close> the extractor calls. \<open>LF\<close> is \<^verbatim>\<open>'\n'\<close>. A slice
  \<^verbatim>\<open>xs[a:b]\<close> with non-negative bounds never raises: it is clamped to the list.
\<close>

definition LF :: char where
  "LF = CHR 0x0A"

definition CR :: char where
  "CR = CHR 0x0D"

definition py_slice :: "'a list \<Rightarrow> nat \<Rightarrow> nat \<Rightarrow> 'a list" where
  "py_slice xs a b = take (b - a) (drop a xs)"

text \<open>\<^verbatim>\<open>sep.join(xs)\<close>.\<close>

fun join :: "string \<Rightarrow> string list \<Rightarrow> string" where
  "join sep [] = []"
| "join sep [x] = x"
| "join sep (x # y # ys) = x @ sep @ join sep (y # ys)"

text \<open>
  The line boundaries of \<^verbatim>\<open>str.splitlines\<close> among the characters of the model:
  \<^verbatim>\<open>\n \r \v \f \x1c \x1d \x1e \x85\<close>, with \<^verbatim>\<open>\r\n\<close> one boundary.
\<close>

definition is_linebreak :: "char \<Rightarrow> bool" where
  "is_linebreak c \<longleftrightarrow>
     c \<in> {CHR 0x0A, CHR 0x0D, CHR 0x0B, CHR 0x0C, CHR 0x1C, CHR 0x1D, CHR 0x1E, CHR 0x85}"

text \<open>
  \<^verbatim>\<open>content.splitlines()\<close>: \<open>cur\<close> is the line read so far. A boundary ends the
  line, also an empty one; what follows the last boundary is a line only when it is not
  empty.
\<close>

fun splitlines_from :: "string \<Rightarrow> string \<Rightarrow> string list" where
  "splitlines_from cur [] = (if cur = [] then [] else [cur])"
| "splitlines_from cur (c # cs) =
     (if c = CR then
        (case cs of
           [] \<Rightarrow> [cur]
         | d # ds \<Rightarrow>
             if d = LF then cur # splitlines_from [] ds
             else cur # splitlines_from [] cs)
      else if is_linebreak c then cur # splitlines_from [] cs
      else splitlines_from (cur @ [c]) cs)"

definition splitlines :: "string \<Rightarrow> string list" where
  "splitlines content = splitlines_from [] content"

text \<open>\<^verbatim>\<open>str.isspace\<close> on one character of the model, and \<^verbatim>\<open>str.strip()\<close>.\<close>

definition isspace :: "char \<Rightarrow> bool" where
  "isspace c \<longleftrightarrow>
     c \<in> {CHR 0x09, CHR 0x0A, CHR 0x0B, CHR 0x0C, CHR 0x0D, CHR 0x1C, CHR 0x1D, CHR 0x1E,
          CHR 0x1F, CHR 0x20, CHR 0x85, CHR 0xA0}"

definition strip :: "string \<Rightarrow> string" where
  "strip s = rev (dropWhile isspace (rev (dropWhile isspace s)))"

section \<open>Rule registry\<close>

text \<open>
  One entry of \<^verbatim>\<open>pattern_definitions\<close>. The regular expression of a rule is run by
  the standard library's \<^verbatim>\<open>re.finditer\<close>; the model takes its result, the list of
  match spans \<open>(start, end)\<close>, as the parameter \<open>finditer\<close> (by rule name and content),
  so the expression itself is not a field.
\<close>

record rule =
  rule_category :: PatternCategory
  rule_subcategory :: string
  rule_description :: string
  severity :: PatternSeverity
  rule_tags :: "string list"

definition pattern_definitions :: "(string \<times> rule) list" where
  "pattern_definitions =
   [(''fs_sync_operations'',
       \<lparr>rule_category = PERFORMANCE, rule_subcategory = ''synchronous-io'',
        rule_description = ''Synchronous filesystem operations that block the event loop'',
        severity = HIGH, rule_tags = [''blocking'', ''filesystem'', ''performance'']\<rparr>),
    (''fs_async_operations'',
       \<lparr>rule_category = PERFORMANCE, rule_subcategory = ''asynchronous-io'',
        rule_description = ''Asynchronous filesystem operations'',
        severity = LOW, rule_tags = [''non-blocking'', ''filesystem'', ''async'']\<rparr>),
    (''any_type_usage'',
       \<lparr>rule_category = TYPE_SAFETY, rule_subcategory = ''weak-typing'',
        rule_description =
          ''Usage of '' @ [CHR 0x22] @ ''any'' @ [CHR 0x22] @
          '' type which bypasses TypeScript type checking'',
        severity = MEDIUM, rule_tags = [''type-safety'', ''any-type'', ''weak-typing'']\<rparr>),
    (''interface_definitions'',
       \<lparr>rule_category = TYPE_SAFETY, rule_subcategory = ''strong-typing'',
        rule_description = ''Interface definitions for type safety'',
        severity = LOW, rule_tags = [''interfaces'', ''type-safety'', ''strong-typing'']\<rparr>),
    (''type_assertions'',
       \<lparr>rule_category = TYPE_SAFETY, rule_subcategory = ''type-casting'',
        rule_description = ''Type assertions that may bypass type checking'',
        severity = MEDIUM, rule_tags = [''type-assertions'', ''type-casting'']\<rparr>),
    (''await_usage'',
       \<lparr>rule_category = ASYNC_PATTERNS, rule_subcategory = ''await-async'',
        rule_description = ''Await keyword usage for asynchronous operations'',
        severity = LOW, rule_tags = [''async'', ''await'', ''promises'']\<rparr>),
    (''promise_usage'',
       \<lparr>rule_category = ASYNC_PATTERNS, rule_subcategory = ''promises'',
        rule_description = ''Promise-based asynchronous patterns'',
        severity = LOW, rule_tags = [''promises'', ''async'']\<rparr>),
    (''callback_patterns'',
       \<lparr>rule_category = ASYNC_PATTERNS, rule_subcategory = ''callbacks'',
        rule_description = ''Callback-based asynchronous patterns'',
        severity = MEDIUM, rule_tags = [''callbacks'', ''async'', ''error-first'']\<rparr>),
    (''react_hooks'',
       \<lparr>rule_category = REACT_PATTERNS, rule_subcategory = ''hooks'',
        rule_description = ''React hooks usage'',
        severity = LOW, rule_tags = [''react'', ''hooks'', ''functional-components'']\<rparr>),
    (''react_memo'',
       \<lparr>rule_category = REACT_PATTERNS, rule_subcategory = ''performance'',
        rule_description = ''React.memo usage for component memoization'',
        severity = LOW, rule_tags = [''react'', ''memo'', ''performance'', ''optimization'']\<rparr>),
    (''useCallback_useMemo'',
       \<lparr>rule_category = REACT_PATTERNS, rule_subcategory = ''performance'',
        rule_description = ''useCallback/useMemo for performance optimization'',
        severity = LOW, rule_tags = [''react'', ''performance'', ''memoization'']\<rparr>),
    (''try_catch_blocks'',
       \<lparr>rule_category = ERROR_HANDLING, rule_subcategory = ''exception-handling'',
        rule_description = ''Try-catch blocks for error handling'',
        severity = LOW, rule_tags = [''error-handling'', ''exceptions'', ''try-catch'']\<rparr>),
    (''error_throwing'',
       \<lparr>rule_category = ERROR_HANDLING, rule_subcategory = ''error-throwing'',
        rule_description = ''Error throwing patterns'',
        severity = LOW, rule_tags = [''error-handling'', ''throw'', ''exceptions'']\<rparr>),
    (''arrow_functions'',
       \<lparr>rule_category = ARCHITECTURE, rule_subcategory = ''functional-programming'',
        rule_description = ''Arrow function usage'',
        severity = LOW, rule_tags = [''arrow-functions'', ''functional'', ''es6'']\<rparr>),
    (''destructuring'',
       \<lparr>rule_category = ARCHITECTURE, rule_subcategory = ''es6-features'',
        rule_description = ''Object/array destructuring patterns'',
        severity = LOW, rule_tags = [''destructuring'', ''es6'', ''modern-js'']\<rparr>),
    (''template_literals'',
       \<lparr>rule_category = ARCHITECTURE, rule_subcategory = ''es6-features'',
        rule_description = ''Template literal usage'',
        severity = LOW, rule_tags = [''template-literals'', ''es6'', ''string-interpolation'']\<rparr>),
    (''console_statements'',
       \<lparr>rule_category = CODE_QUALITY, rule_subcategory = ''debugging'',
        rule_description = ''Console statements that may need removal in production'',
        severity = MEDIUM, rule_tags = [''console'', ''debugging'', ''production-cleanup'']\<rparr>),
    (''todo_comments'',
       \<lparr>rule_category = CODE_QUALITY, rule_subcategory = ''technical-debt'',
        rule_description = ''TODO/FIXME comments indicating technical debt'',
        severity = MEDIUM, rule_tags = [''todo'', ''technical-debt'', ''comments'']\<rparr>)]"

section \<open>Building an occurrence from a match\<close>

text \<open>
  The body of the inner loop of \<^verbatim>\<open>_extract_patterns_from_file\<close> for one match of
  one rule; \<open>(s, e)\<close> is \<^verbatim>\<open>(match.start(), match.end())\<close>.
  \<^verbatim>\<open>max(0, line_start - 3)\<close> is the truncating subtraction of \<^typ>\<open>nat\<close>, and
  \<^verbatim>\<open>line_start - 1\<close> is never negative.
\<close>

definition count_newlines :: "string \<Rightarrow> nat \<Rightarrow> nat" where
  "count_newlines content k = count_list (take k content) LF"

definition build_pattern ::
  "string \<Rightarrow> rule \<Rightarrow> string \<Rightarrow> string \<Rightarrow> string option \<Rightarrow> string \<Rightarrow> nat \<times> nat \<Rightarrow> CodePattern"
where
  "build_pattern pattern_name pattern_def relative_path lang fw content m =
     (let lines = splitlines content;
          s = fst m; e = snd m;
          group0 = py_slice content s e;
          ls = count_newlines content s + 1;
          le = count_newlines content e + 1;
          context_start = ls - 3;
          context_end = min (length lines) (le + 2)
      in \<lparr>pattern_type = pattern_name,
          pattern_content = strip group0,
          description = rule_description pattern_def,
          category = rule_category pattern_def,
          subcategory = Some (rule_subcategory pattern_def),
          file_path = relative_path,
          line_start = ls,
          line_end = le,
          language = lang,
          framework = fw,
          confidence_score = severity_value (severity pattern_def),
          usage_count = 1,
          context_before = join [LF] (py_slice lines context_start (ls - 1)),
          context_after = join [LF] (py_slice lines le context_end),
          tags = rule_tags pattern_def,
          metadata = [(''match_length'', MInt (length group0)),
                      (''file_size'', MInt (length content)),
                      (''total_lines'', MInt (length lines))]\<rparr>)"

subsection \<open>Lines of a text, as the specification speaks of them\<close>

text \<open>
  \<open>skip_lines k T\<close> is the offset just after the \<open>k\<close>-th newline of \<open>T\<close>. Line
  \<open>n\<close> (counted from 1) starts at \<open>line_begin T n\<close> and ends before
  \<open>line_finish T n\<close>, the offset of the next newline or the length of the text.
\<close>

fun skip_lines :: "nat \<Rightarrow> string \<Rightarrow> nat" where
  "skip_lines 0 T = 0"
| "skip_lines (Suc k) [] = 0"
| "skip_lines (Suc k) (c # cs) =
     Suc (if c = LF then skip_lines k cs else skip_lines (Suc k) cs)"

definition line_begin :: "string \<Rightarrow> nat \<Rightarrow> nat" where
  "line_begin T n = skip_lines (n - 1) T"

definition line_finish :: "string \<Rightarrow> nat \<Rightarrow> nat" where
  "line_finish T n =
     line_begin T n + length (takeWhile (\<lambda>c. c \<noteq> LF) (drop (line_begin T n) T))"

text \<open>A text whose only line boundaries are newlines.\<close>

definition only_LF :: "string \<Rightarrow> bool" where
  "only_LF T \<longleftrightarrow> (\<forall>c \<in> set T. is_linebreak c \<longrightarrow> c = LF)"

text \<open>
  The text of line \<open>n\<close>, without its newline, and the number of lines of a text: every
  newline ends a line, and what follows the last newline is a line when it is not empty.
\<close>

definition text_line :: "string \<Rightarrow> nat \<Rightarrow> string" where
  "text_line T n = py_slice T (line_begin T n) (line_finish T n)"

definition num_lines :: "string \<Rightarrow> nat" where
  "num_lines T = count_list T LF + (if T = [] \<or> last T = LF then 0 else 1)"

subsection \<open>Example file contents\<close>

definition example_content :: string where
  "example_content =
     ''l1'' @ [LF] @ ''l2'' @ [LF] @ ''l3'' @ [LF] @ ''console.log'' @ [LF] @
     ''l5'' @ [LF] @ ''l6'' @ [LF] @ ''l7''"

text \<open>A file with a form feed on its first line, and the match on its second line.\<close>

definition form_feed_content :: string where
  "form_feed_content = ''a'' @ [CHR 0x0C] @ ''b'' @ [LF] @ ''console.log'' @ [LF] @ ''z''"

definition example_rule :: rule where
  "example_rule =
     \<lparr>rule_category = CODE_QUALITY, rule_subcategory = ''debugging'',
      rule_description = ''Console statements that may need removal in production'',
      severity = MEDIUM, rule_tags = [''console'', ''debugging'', ''production-cleanup'']\<rparr>"

definition example_occurrence :: CodePattern where
  "example_occurrence =
     build_pattern ''console_statements'' example_rule ''src/a.ts'' ''typescript'' None
       example_content (9, 20)"

section \<open>Regular expressions of the framework heuristics\<close>

text \<open>
  \<^verbatim>\<open>re.search\<close> is the standard library's. The five expressions of
  \<^verbatim>\<open>_determine_framework\<close> use only literals, \<^verbatim>\<open>.\<close>, \<^verbatim>\<open>\s\<close>, a character
  set, \<^verbatim>\<open>*\<close>, \<^verbatim>\<open>+\<close> and \<^verbatim>\<open>|\<close>, so they are written as terms of a small
  regular-expression type and searched by Brzozowski derivatives. Without the flag
  \<^verbatim>\<open>DOTALL\<close> the dot matches every character but the newline; with
  \<^verbatim>\<open>IGNORECASE\<close> a letter of the expression matches both of its cases.
\<close>

datatype atom = Chr char | ChrI char | Dot | AnyChar | Space | OneOf "char list"

datatype rx = Empty | Eps | Atom atom | Alt rx rx | Seq rx rx | Star rx

definition ascii_lower :: "char \<Rightarrow> char" where
  "ascii_lower c =
     (case map_of (zip ''ABCDEFGHIJKLMNOPQRSTUVWXYZ'' ''abcdefghijklmnopqrstuvwxyz'') c of
        Some l \<Rightarrow> l
      | None \<Rightarrow> c)"

fun atom_matches :: "atom \<Rightarrow> char \<Rightarrow> bool" where
  "atom_matches (Chr a) c \<longleftrightarrow> c = a"
| "atom_matches (ChrI a) c \<longleftrightarrow> ascii_lower c = ascii_lower a"
| "atom_matches Dot c \<longleftrightarrow> c \<noteq> LF"
| "atom_matches AnyChar c \<longleftrightarrow> True"
| "atom_matches Space c \<longleftrightarrow> isspace c"
| "atom_matches (OneOf cs) c \<longleftrightarrow> c \<in> set cs"

fun nullable :: "rx \<Rightarrow> bool" where
  "nullable Empty = False"
| "nullable Eps = True"
| "nullable (Atom a) = False"
| "nullable (Alt r s) = (nullable r \<or> nullable s)"
| "nullable (Seq r s) = (nullable r \<and> nullable s)"
| "nullable (Star r) = True"

text \<open>Alternative and sequence that drop the empty language, to keep derivatives small.\<close>

fun alt :: "rx \<Rightarrow> rx \<Rightarrow> rx" where
  "alt Empty s = s"
| "alt r Empty = r"
| "alt r s = Alt r s"

fun seq :: "rx \<Rightarrow> rx \<Rightarrow> rx" where
  "seq Empty s = Empty"
| "seq Eps s = s"
| "seq r s = Seq r s"

fun deriv :: "char \<Rightarrow> rx \<Rightarrow> rx" where
  "deriv c Empty = Empty"
| "deriv c Eps = Empty"
| "deriv c (Atom a) = (if atom_matches a c then Eps else Empty)"
| "deriv c (Alt r s) = alt (deriv c r) (deriv c s)"
| "deriv c (Seq r s) =
     (if nullable r then alt (seq (deriv c r) s) (deriv c s) else seq (deriv c r) s)"
| "deriv c (Star r) = seq (deriv c r) (Star r)"

text \<open>\<^verbatim>\<open>re.fullmatch\<close>: the whole string is in the language of the expression.\<close>

definition re_fullmatch :: "rx \<Rightarrow> string \<Rightarrow> bool" where
  "re_fullmatch r s = nullable (foldl (\<lambda>r c. deriv c r) r s)"

text \<open>\<^verbatim>\<open>re.search(...)\<close> as a truth value: some substring matches.\<close>

definition re_search :: "rx \<Rightarrow> string \<Rightarrow> bool" where
  "re_search r s = re_fullmatch (Seq (Star (Atom AnyChar)) (Seq r (Star (Atom AnyChar)))) s"

text \<open>
  What it means for a string to match an expression, independently of the derivative
  search above; the search is shown to agree with it.
\<close>

inductive rx_match :: "rx \<Rightarrow> string \<Rightarrow> bool" where
  match_Eps: "rx_match Eps []"
| match_Atom: "atom_matches a c \<Longrightarrow> rx_match (Atom a) [c]"
| match_AltL: "rx_match r w \<Longrightarrow> rx_match (Alt r s) w"
| match_AltR: "rx_match s w \<Longrightarrow> rx_match (Alt r s) w"
| match_Seq: "rx_match r u \<Longrightarrow> rx_match s v \<Longrightarrow> rx_match (Seq r s) (u @ v)"
| match_StarNil: "rx_match (Star r) []"
| match_StarStep: "rx_match r u \<Longrightarrow> rx_match (Star r) v \<Longrightarrow> rx_match (Star r) (u @ v)"

text \<open>A literal, with and without \<^verbatim>\<open>IGNORECASE\<close>, and \<^verbatim>\<open>r+\<close>.\<close>

definition lit :: "string \<Rightarrow> rx" where
  "lit s = foldr (\<lambda>c r. Seq (Atom (Chr c)) r) s Eps"

definition liti :: "string \<Rightarrow> rx" where
  "liti s = foldr (\<lambda>c r. Seq (Atom (ChrI c)) r) s Eps"

definition plus :: "rx \<Rightarrow> rx" where
  "plus r = Seq r (Star r)"

definition quote :: rx where
  "quote = Atom (OneOf [CHR 0x22, CHR 0x27])"

text \<open>
  \<^verbatim>\<open>import.*react|from\s+["\']react["\']\<close>,
  \<^verbatim>\<open>import.*vue|from\s+["\']vue["\']\<close> and
  \<^verbatim>\<open>import.*angular|from\s+["\']@angular\<close>, all three with \<^verbatim>\<open>re.IGNORECASE\<close>;
  \<^verbatim>\<open>express\(|app\.get|app\.post\<close> and \<^verbatim>\<open>require\(|module\.exports\<close>.
\<close>

definition react_rx :: rx where
  "react_rx =
     Alt (Seq (liti ''import'') (Seq (Star (Atom Dot)) (liti ''react'')))
         (Seq (liti ''from'') (Seq (plus (Atom Space)) (Seq quote (Seq (liti ''react'') quote))))"

definition vue_rx :: rx where
  "vue_rx =
     Alt (Seq (liti ''import'') (Seq (Star (Atom Dot)) (liti ''vue'')))
         (Seq (liti ''from'') (Seq (plus (Atom Space)) (Seq quote (Seq (liti ''vue'') quote))))"

definition angular_rx :: rx where
  "angular_rx =
     Alt (Seq (liti ''import'') (Seq (Star (Atom Dot)) (liti ''angular'')))
         (Seq (liti ''from'') (Seq (plus (Atom Space)) (Seq quote (liti ''@angular''))))"

definition express_rx :: rx where
  "express_rx = Alt (lit ''express('') (Alt (lit ''app.get'') (lit ''app.post''))"

definition nodejs_rx :: rx where
  "nodejs_rx = Alt (lit ''require('') (lit ''module.exports'')"

section \<open>Language and framework classification\<close>

text \<open>\<^verbatim>\<open>sub in s\<close> for strings.\<close>

fun contains :: "string \<Rightarrow> string \<Rightarrow> bool" where
  "contains sub [] = (sub = [])"
| "contains sub (c # cs) = (take (length sub) (c # cs) = sub \<or> contains sub cs)"

text \<open>
  \<^verbatim>\<open>_determine_framework(content, file_path)\<close>; \<open>path\<close> is
  \<^verbatim>\<open>str(file_path)\<close>, the path of the file with the repository path in front.
\<close>

definition determine_framework :: "string \<Rightarrow> string \<Rightarrow> string option" where
  "determine_framework content path =
     (if re_search react_rx content then Some ''react''
      else if re_search vue_rx content then Some ''vue''
      else if re_search angular_rx content then Some ''angular''
      else if re_search express_rx content then Some ''express''
      else if contains ''node'' path \<or> re_search nodejs_rx content then Some ''nodejs''
      else None)"

text \<open>
  \<^verbatim>\<open>PurePath.suffix\<close>: the part of the last path component from its last dot, when
  that dot is neither its first nor its last character; \<^verbatim>\<open>str.lower()\<close> on it; then
  the lookup of \<^verbatim>\<open>_determine_language\<close>.
\<close>

definition path_name :: "string \<Rightarrow> string" where
  "path_name p = rev (takeWhile (\<lambda>c. c \<noteq> CHR ''/'') (rev p))"

definition path_suffix :: "string \<Rightarrow> string" where
  "path_suffix p =
     (let name = path_name p;
          ext = rev (takeWhile (\<lambda>c. c \<noteq> CHR ''.'') (rev name))
      in if CHR ''.'' \<in> set name \<and> ext \<noteq> [] \<and> length ext + 1 < length name
         then CHR ''.'' # ext else [])"

definition determine_language :: "string \<Rightarrow> string" where
  "determine_language path =
     (case map_of [(''.ts'', ''typescript''), (''.tsx'', ''typescript''),
                   (''.js'', ''javascript''), (''.jsx'', ''javascript'')]
                  (map ascii_lower (path_suffix path)) of
        Some l \<Rightarrow> l
      | None \<Rightarrow> ''unknown'')"

section \<open>Corpus walk and extraction\<close>

text \<open>
  What \<^verbatim>\<open>Path.rglob\<close> of the standard library finds at the repository path.
  \<^verbatim>\<open>rglob\<close> first asks \<^verbatim>\<open>is_dir\<close>, which calls \<^verbatim>\<open>stat\<close>:
  \<^item> \<open>Stat_fails errno\<close>: \<^verbatim>\<open>stat\<close> raises \<^verbatim>\<open>OSError\<close> with this error number.
    \<^verbatim>\<open>is_dir\<close> answers \<^verbatim>\<open>False\<close> for \<^verbatim>\<open>ENOENT\<close>, \<^verbatim>\<open>ENOTDIR\<close>,
    \<^verbatim>\<open>EBADF\<close> and \<^verbatim>\<open>ELOOP\<close> and re-raises every other error, such as
    \<^verbatim>\<open>EACCES\<close> for a root below a directory that may not be searched or
    \<^verbatim>\<open>ENAMETOOLONG\<close>;
  \<^item> \<open>Not_a_directory\<close>: the path exists and is not a directory;
  \<^item> \<open>Listing_denied\<close>: a directory whose listing raises \<^verbatim>\<open>PermissionError\<close>,
    which the walk swallows;
  \<^item> \<open>Walk_fails errno\<close>: a directory where a listing at or below it raises an
    \<^verbatim>\<open>OSError\<close> that is not a \<^verbatim>\<open>PermissionError\<close>; the walk lets it through;
  \<^item> \<open>Listing entries\<close>: the walk completes; \<open>entries\<close> are the paths below the
    root, relative to it, each with its text, or \<open>None\<close> when \<^verbatim>\<open>open\<close> or
    \<^verbatim>\<open>read\<close> raises (a directory, a file without read permission).
  A name matches \<^verbatim>\<open>*.ts\<close> when it ends in \<^verbatim>\<open>.ts\<close>. The source wraps none of
  its four \<^verbatim>\<open>list(self.repository_path.rglob(...))\<close> calls in a \<^verbatim>\<open>try\<close>, so an
  error of \<^verbatim>\<open>rglob\<close> leaves \<^verbatim>\<open>extract_patterns_from_repository\<close> as it is.
  \<^verbatim>\<open>CorpusNotFoundError\<close> is the error the specification names; the source neither
  defines nor raises it.
\<close>

datatype corpus =
  Stat_fails string
  | Not_a_directory
  | Listing_denied
  | Walk_fails string
  | Listing "(string \<times> string option) list"

datatype error = CorpusNotFoundError | OSError string

definition ignore_error :: "string \<Rightarrow> bool" where
  "ignore_error errno \<longleftrightarrow> errno \<in> {''ENOENT'', ''ENOTDIR'', ''EBADF'', ''ELOOP''}"

definition ends_with :: "string \<Rightarrow> string \<Rightarrow> bool" where
  "ends_with ext p = (length ext \<le> length p \<and> drop (length p - length ext) p = ext)"

definition rglob :: "corpus \<Rightarrow> string \<Rightarrow> error + (string \<times> string option) list" where
  "rglob tree ext =
     (case tree of
        Stat_fails errno \<Rightarrow> if ignore_error errno then Inr [] else Inl (OSError errno)
      | Not_a_directory \<Rightarrow> Inr []
      | Listing_denied \<Rightarrow> Inr []
      | Walk_fails errno \<Rightarrow> Inl (OSError errno)
      | Listing entries \<Rightarrow> Inr (filter (\<lambda>f. ends_with ext (fst f)) entries))"

text \<open>\<^verbatim>\<open>str(f)\<close> for a path \<open>rel\<close> below the repository path.\<close>

definition full_path :: "string \<Rightarrow> string \<Rightarrow> string" where
  "full_path repository_path rel = repository_path @ ''/'' @ rel"

text \<open>
  \<^verbatim>\<open>_extract_patterns_from_file\<close>: the occurrences of one file are appended to
  \<^verbatim>\<open>self.patterns\<close>, rule by rule in the order of the registry, match by match in the
  order of \<^verbatim>\<open>re.finditer\<close>. A file that cannot be read is skipped.
\<close>

definition extract_patterns_from_file ::
  "(string \<Rightarrow> string \<Rightarrow> (nat \<times> nat) list) \<Rightarrow> string \<Rightarrow> CodePattern list \<Rightarrow>
   string \<times> string option \<Rightarrow> CodePattern list"
where
  "extract_patterns_from_file finditer repository_path patterns f =
     (case snd f of
        None \<Rightarrow> patterns
      | Some content \<Rightarrow>
          (let lang = determine_language (full_path repository_path (fst f));
               fw = determine_framework content (full_path repository_path (fst f));
               relative_path = fst f
           in patterns @
              concat (map (\<lambda>(pattern_name, pattern_def).
                             map (build_pattern pattern_name pattern_def relative_path lang fw
                                    content)
                                 (finditer pattern_name content))
                          pattern_definitions)))"

text \<open>
  \<^verbatim>\<open>extract_patterns_from_repository\<close>: the four walks in the order of the source,
  the first error of a walk ending the call; then the filter and the scan of each file.
\<close>

definition extract_patterns_from_repository ::
  "(string \<Rightarrow> string \<Rightarrow> (nat \<times> nat) list) \<Rightarrow> string \<Rightarrow> corpus \<Rightarrow> CodePattern list \<Rightarrow>
   error + CodePattern list"
where
  "extract_patterns_from_repository finditer repository_path tree patterns =
     (case rglob tree ''.ts'' of
        Inl e \<Rightarrow> Inl e
      | Inr ts_files \<Rightarrow>
     (case rglob tree ''.js'' of
        Inl e \<Rightarrow> Inl e
      | Inr js_files \<Rightarrow>
     (case rglob tree ''.tsx'' of
        Inl e \<Rightarrow> Inl e
      | Inr tsx_files \<Rightarrow>
     (case rglob tree ''.jsx'' of
        Inl e \<Rightarrow> Inl e
      | Inr jsx_files \<Rightarrow>
          (let all_files = ts_files @ js_files @ tsx_files @ jsx_files;
               filtered_files =
                 filter (\<lambda>f. \<not> contains ''node_modules'' (full_path repository_path (fst f)) \<and>
                             \<not> contains ''dist'' (full_path repository_path (fst f)))
                        all_files
           in Inr (foldl (extract_patterns_from_file finditer repository_path) patterns
                     filtered_files))))))"

section \<open>Report\<close>

text \<open>\<^verbatim>\<open>d[k] = d.get(k, 0) + 1\<close> on a dict in insertion order.\<close>

definition bump :: "'k \<Rightarrow> ('k \<times> nat) list \<Rightarrow> ('k \<times> nat) list" where
  "bump k d = AList.update k (case map_of d k of None \<Rightarrow> 1 | Some n \<Rightarrow> n + 1) d"

definition counts_by :: "(CodePattern \<Rightarrow> 'k) \<Rightarrow> CodePattern list \<Rightarrow> ('k \<times> nat) list" where
  "counts_by key patterns = foldl (\<lambda>d p. bump (key p) d) [] patterns"

text \<open>The severity label of the report, from the confidence score.\<close>

definition severity_label :: "real \<Rightarrow> string" where
  "severity_label score =
     (if score \<ge> 0.9 then ''critical''
      else if score \<ge> 0.6 then ''high''
      else if score \<ge> 0.3 then ''medium''
      else ''low'')"

text \<open>
  \<^verbatim>\<open>sorted(items, key=lambda x: x[1], reverse=True)\<close>: a stable sort by descending
  count, items of equal count staying in their order.
\<close>

definition sorted_by_count :: "('k \<times> nat) list \<Rightarrow> ('k \<times> nat) list" where
  "sorted_by_count items = sort_key (\<lambda>x. - int (snd x)) items"

record report =
  total_patterns :: nat
  category_breakdown :: "(string \<times> nat) list"
  severity_breakdown :: "(string \<times> nat) list"
  top_files_by_pattern_count :: "(string \<times> nat) list"
  pattern_type_breakdown :: "(string \<times> nat) list"
  extraction_timestamp :: string
  report_repository_path :: string

datatype report_result = No_patterns_found | Report report

definition generate_pattern_report :: "string \<Rightarrow> string \<Rightarrow> CodePattern list \<Rightarrow> report_result" where
  "generate_pattern_report now repository_path patterns =
     (if patterns = [] then No_patterns_found
      else Report
        \<lparr>total_patterns = length patterns,
         category_breakdown = counts_by (\<lambda>p. category_value (category p)) patterns,
         severity_breakdown = counts_by (\<lambda>p. severity_label (confidence_score p)) patterns,
         top_files_by_pattern_count = take 10 (sorted_by_count (counts_by file_path patterns)),
         pattern_type_breakdown = sorted_by_count (counts_by pattern_type patterns),
         extraction_timestamp = now,
         report_repository_path = repository_path\<rparr>)"

section \<open>Properties of the pattern hash\<close>

lemma hash_content_mk_pattern:
  "hash_content (mk_pattern t c cat f) = t @ '':'' @ c @ '':'' @ category_value cat"
  by (simp add: hash_content_def mk_pattern_def)

lemma pattern_key_mk_pattern: "pattern_key (mk_pattern t c cat f) = (t, c, cat)"
  by (simp add: pattern_key_def mk_pattern_def)

lemma file_path_mk_pattern: "file_path (mk_pattern t c cat f) = f"
  by (simp add: mk_pattern_def)

lemma pattern_type_mk_pattern: "pattern_type (mk_pattern t c cat f) = t"
  by (simp add: mk_pattern_def)

lemma category_value_no_colon: "CHR '':'' \<notin> set (category_value c)"
  by (cases c) simp_all

lemma category_value_inj: "category_value c = category_value d \<Longrightarrow> c = d"
  by (cases c; cases d) simp_all

text \<open>Splitting at the first colon: a colon-free prefix is determined by the whole.\<close>

lemma split_first_colon:
  assumes "x @ CHR '':'' # r = y @ CHR '':'' # s"
    and "CHR '':'' \<notin> set x" and "CHR '':'' \<notin> set y"
  shows "x = y \<and> r = s"
  using assms
proof (induction x arbitrary: y)
  case Nil
  then show ?case by (cases y) auto
next
  case (Cons a x)
  then show ?case by (cases y) auto
qed

text \<open>Splitting at the last colon: a colon-free suffix is determined by the whole.\<close>

lemma split_last_colon:
  assumes "r @ CHR '':'' # x = s @ CHR '':'' # y"
    and "CHR '':'' \<notin> set x" and "CHR '':'' \<notin> set y"
  shows "x = y \<and> r = s"
proof -
  from assms(1) have "rev (r @ CHR '':'' # x) = rev (s @ CHR '':'' # y)"
    by simp
  then have "rev x @ CHR '':'' # rev r = rev y @ CHR '':'' # rev s"
    by simp
  with assms(2,3) have "rev x = rev y \<and> rev r = rev s"
    by (intro split_first_colon) simp_all
  then show ?thesis by simp
qed

lemma hash_content_inj:
  assumes "hash_content p = hash_content q"
    and "CHR '':'' \<notin> set (pattern_type p)" and "CHR '':'' \<notin> set (pattern_type q)"
  shows "pattern_key p = pattern_key q"
proof -
  from assms(1) have e:
    "pattern_type p @ CHR '':'' # (pattern_content p @ '':'' @ category_value (category p)) =
     pattern_type q @ CHR '':'' # (pattern_content q @ '':'' @ category_value (category q))"
    by (simp add: hash_content_def)
  from split_first_colon [OF e assms(2,3)]
  have t: "pattern_type p = pattern_type q"
    and r: "pattern_content p @ CHR '':'' # category_value (category p) =
            pattern_content q @ CHR '':'' # category_value (category q)"
    by simp_all
  from split_last_colon [OF r category_value_no_colon category_value_no_colon]
  have "category_value (category p) = category_value (category q)"
    and c: "pattern_content p = pattern_content q"
    by simp_all
  then have "category p = category q"
    by (simp add: category_value_inj)
  with t c show ?thesis by (simp add: pattern_key_def)
qed

lemma hash_content_cong:
  "pattern_key p = pattern_key q \<Longrightarrow> hash_content p = hash_content q"
  by (simp add: pattern_key_def hash_content_def)

text \<open>
  A digest with finitely many values cannot separate all strings in the place of the
  matched text, even with the rule id and the category fixed: two records with the same
  rule id and different text share a hash.
\<close>

lemma finite_digest_collision:
  fixes md5 :: "string \<Rightarrow> 'h"
  assumes "finite (UNIV :: 'h set)"
  shows "\<exists>c d. c \<noteq> d \<and>
    pattern_hash md5 (mk_pattern ''await_usage'' c ASYNC_PATTERNS f) =
    pattern_hash md5 (mk_pattern ''await_usage'' d ASYNC_PATTERNS f)"
proof -
  let ?g = "\<lambda>c. pattern_hash md5 (mk_pattern ''await_usage'' c ASYNC_PATTERNS f)"
  have "\<not> inj ?g"
  proof
    assume "inj ?g"
    moreover have "finite (range ?g)"
      using assms by (rule finite_subset [rotated]) simp
    ultimately have "finite (UNIV :: string set)"
      by (rule finite_imageD [rotated])
    then show False
      by (simp add: infinite_UNIV_listI)
  qed
  then show ?thesis
    by (auto simp: inj_on_def)
qed

text \<open>
  Claim C2 (as the code has it). Occurrences with the same (rule id, matched text,
  category) have the same hash for every digest; when the rule ids contain no colon
  (as every rule id of the registry), two occurrences share a hash exactly when their
  triples are equal or the digest collides on two different inputs.
\<close>

theorem pattern_hash_characterisation:
  fixes md5 :: "string \<Rightarrow> 'h"
  shows "(pattern_key p = pattern_key q \<longrightarrow> pattern_hash md5 p = pattern_hash md5 q) \<and>
    (CHR '':'' \<notin> set (pattern_type p) \<and> CHR '':'' \<notin> set (pattern_type q) \<longrightarrow>
      (pattern_hash md5 p = pattern_hash md5 q \<longleftrightarrow>
        pattern_key p = pattern_key q \<or>
        (hash_content p \<noteq> hash_content q \<and> md5 (hash_content p) = md5 (hash_content q))))"
  using hash_content_inj [of p q] hash_content_cong [of p q]
  by (auto simp: pattern_hash_def)

text \<open>
  Two sightings of one snippet in two files share their hash. With a digest that only
  looks at the length of its input, two occurrences of one rule with different matched
  text of the same length share a hash too: their triples differ and so do the hashed
  strings, so this is a collision of the digest.
\<close>

theorem pattern_hash_characterisation_witness:
  "pattern_key (mk_pattern ''await_usage'' ''await'' ASYNC_PATTERNS ''a.ts'') =
     pattern_key (mk_pattern ''await_usage'' ''await'' ASYNC_PATTERNS ''b.ts'') \<and>
   CHR '':'' \<notin> set ''await_usage'' \<and>
   pattern_hash (\<lambda>s. length s mod 7)
       (mk_pattern ''await_usage'' ''await'' ASYNC_PATTERNS ''a.ts'') =
     pattern_hash (\<lambda>s. length s mod 7)
       (mk_pattern ''await_usage'' ''await'' ASYNC_PATTERNS ''b.ts'') \<and>
   pattern_hash (\<lambda>s. length s mod 7)
       (mk_pattern ''await_usage'' ''await'' ASYNC_PATTERNS ''a.ts'') =
     pattern_hash (\<lambda>s. length s mod 7)
       (mk_pattern ''await_usage'' ''async'' ASYNC_PATTERNS ''a.ts'') \<and>
   pattern_key (mk_pattern ''await_usage'' ''await'' ASYNC_PATTERNS ''a.ts'') \<noteq>
     pattern_key (mk_pattern ''await_usage'' ''async'' ASYNC_PATTERNS ''a.ts'') \<and>
   hash_content (mk_pattern ''await_usage'' ''await'' ASYNC_PATTERNS ''a.ts'') \<noteq>
     hash_content (mk_pattern ''await_usage'' ''async'' ASYNC_PATTERNS ''a.ts'')"
  using pattern_hash_characterisation
    [of "mk_pattern ''await_usage'' ''await'' ASYNC_PATTERNS ''a.ts''"
        "mk_pattern ''await_usage'' ''await'' ASYNC_PATTERNS ''b.ts''"
        "\<lambda>s. length s mod 7"]
    pattern_hash_characterisation
    [of "mk_pattern ''await_usage'' ''await'' ASYNC_PATTERNS ''a.ts''"
        "mk_pattern ''await_usage'' ''async'' ASYNC_PATTERNS ''a.ts''"
        "\<lambda>s. length s mod 7"]
  by (simp add: pattern_key_mk_pattern pattern_type_mk_pattern hash_content_mk_pattern
      pattern_hash_def)

text \<open>
  The equivalence of claim C2 fails in the direction from hashes to triples: the two
  occurrences below differ in rule id and matched text, and the string that is hashed is
  the same, so their hashes agree whatever the digest is.
\<close>

theorem pattern_hash_iff_counterexample:
  "\<forall>md5 :: string \<Rightarrow> string.
     pattern_hash md5 (mk_pattern ''a:b'' ''c'' PERFORMANCE ''x.ts'') =
     pattern_hash md5 (mk_pattern ''a'' ''b:c'' PERFORMANCE ''x.ts'') \<and>
     pattern_key (mk_pattern ''a:b'' ''c'' PERFORMANCE ''x.ts'') \<noteq>
     pattern_key (mk_pattern ''a'' ''b:c'' PERFORMANCE ''x.ts'')"
  by (simp add: pattern_hash_def hash_content_mk_pattern pattern_key_mk_pattern)

section \<open>Properties of the aggregation\<close>

lemma map_fst_map_entry: "map fst (AList.map_entry k f xs) = map fst xs"
  by (induction xs) auto

lemma map_of_group_step:
  "map_of (group_step md5 gs p) h =
     (if h = pattern_hash md5 p
      then Some (case map_of gs h of
                   None \<Rightarrow> \<lparr>pattern = p, count = 1, files = {file_path p}\<rparr>
                 | Some g \<Rightarrow> g\<lparr>count := count g + 1, files := insert (file_path p) (files g)\<rparr>)
      else map_of gs h)"
  by (auto simp: group_step_def Let_def map_of_map_entry map_add_def split: option.splits)

lemma keys_group_step:
  "map fst (group_step md5 gs p) =
     (if pattern_hash md5 p \<in> set (map fst gs) then map fst gs
      else map fst gs @ [pattern_hash md5 p])"
  by (auto simp: group_step_def Let_def map_fst_map_entry map_of_eq_None_iff)

lemma map_of_fold_groups:
  "map_of (foldl (group_step md5) gs ps) h =
     (case map_of gs h of
        Some g \<Rightarrow>
          Some (g\<lparr>count := count g + length (with_hash md5 h ps),
                  files := files g \<union> file_path ` set (with_hash md5 h ps)\<rparr>)
      | None \<Rightarrow>
          (case with_hash md5 h ps of
             [] \<Rightarrow> None
           | q # _ \<Rightarrow>
               Some \<lparr>pattern = q, count = length (with_hash md5 h ps),
                     files = file_path ` set (with_hash md5 h ps)\<rparr>))"
proof (induction ps arbitrary: gs)
  case Nil
  then show ?case by (simp add: with_hash_def split: option.splits)
next
  case (Cons p ps)
  show ?case
    by (simp add: Cons.IH map_of_group_step with_hash_def split: option.splits list.splits)
qed

lemma dom_group_step:
  "fst ` set (group_step md5 gs p) = insert (pattern_hash md5 p) (fst ` set gs)"
proof -
  have "set (map fst (group_step md5 gs p)) = insert (pattern_hash md5 p) (set (map fst gs))"
    unfolding keys_group_step by auto
  then show ?thesis by simp
qed

lemma keys_fold_groups:
  "fst ` set (foldl (group_step md5) gs ps) = fst ` set gs \<union> pattern_hash md5 ` set ps"
  by (induction ps arbitrary: gs) (simp_all add: dom_group_step)

lemma distinct_fold_groups:
  "distinct (map fst gs) \<Longrightarrow> distinct (map fst (foldl (group_step md5) gs ps))"
  by (induction ps arbitrary: gs) (auto simp: keys_group_step)


lemma filter_key_distinct:
  "distinct (map fst xs) \<Longrightarrow> map_of xs h = Some g \<Longrightarrow>
   filter (\<lambda>kv. fst kv = h) xs = [(h, g)]"
proof (induction xs)
  case Nil
  then show ?case by simp
next
  case (Cons x xs)
  show ?case
  proof (cases "fst x = h")
    case True
    with Cons.prems have "x = (h, g)" by (cases x) simp
    moreover from Cons.prems True have "h \<notin> fst ` set xs" by auto
    then have "\<forall>kv \<in> set xs. fst kv \<noteq> h" by force
    then have "filter (\<lambda>kv. fst kv = h) xs = []" by (simp add: filter_empty_conv)
    ultimately show ?thesis by simp
  next
    case False
    with Cons show ?thesis by (cases x) auto
  qed
qed

lemma find_filter_hd: "filter P xs = q # r \<Longrightarrow> List.find P xs = Some q"
  by (induction xs) (auto split: if_splits)

lemma map_of_group_patterns:
  "map_of (group_patterns md5 ps) h =
     (case with_hash md5 h ps of
        [] \<Rightarrow> None
      | q # _ \<Rightarrow>
          Some \<lparr>pattern = q, count = length (with_hash md5 h ps),
                files = file_path ` set (with_hash md5 h ps)\<rparr>)"
  by (simp add: group_patterns_def map_of_fold_groups)

lemma distinct_group_patterns: "distinct (map fst (group_patterns md5 ps))"
  by (simp add: group_patterns_def distinct_fold_groups)

lemma with_hash_by_key:
  assumes inj: "\<forall>p\<in>set ps. \<forall>q\<in>set ps.
                  pattern_hash md5 p = pattern_hash md5 q \<longrightarrow> pattern_key p = pattern_key q"
    and r: "r \<in> set ps"
  shows "with_hash md5 (pattern_hash md5 r) ps = filter (\<lambda>q. pattern_key q = pattern_key r) ps"
  unfolding with_hash_def
proof (rule filter_cong [OF refl])
  fix q assume q: "q \<in> set ps"
  show "(pattern_hash md5 q = pattern_hash md5 r) = (pattern_key q = pattern_key r)"
  proof
    assume "pattern_hash md5 q = pattern_hash md5 r"
    with inj q r show "pattern_key q = pattern_key r" by blast
  next
    assume "pattern_key q = pattern_key r"
    from hash_content_cong [OF this]
    show "pattern_hash md5 q = pattern_hash md5 r" by (simp add: pattern_hash_def)
  qed
qed

text \<open>
  Claim C1 (as the code has it). Every hash \<open>h\<close> that occurs in the input has exactly one
  group. Its count is the number of occurrences with hash \<open>h\<close>, its file set is the set of
  their file paths, which has at most count many elements, and its representative is the
  first occurrence with hash \<open>h\<close> in input order. The emitted row carries the count as
  \<^verbatim>\<open>usage_count\<close>, the file set and its size in the metadata, and the representative's
  other fields unchanged. When the digest separates the triples of the input, the
  occurrences with hash \<open>h\<close> are those whose (rule id, matched text, category) equals
  the representative's.
\<close>

theorem group_patterns_correct:
  assumes "h \<in> pattern_hash md5 ` set patterns"
  shows "\<exists>g. map snd (filter (\<lambda>kv. fst kv = h) (group_patterns md5 patterns)) = [g] \<and>
     count g = length (with_hash md5 h patterns) \<and>
     files g = file_path ` set (with_hash md5 h patterns) \<and>
     card (files g) \<le> count g \<and>
     List.find (\<lambda>q. pattern_hash md5 q = h) patterns = Some (pattern g) \<and>
     usage_count (columns (make_row md5 e rid g)) = count g \<and>
     map_of (metadata (columns (make_row md5 e rid g))) ''files'' = Some (MFiles (files g)) \<and>
     map_of (metadata (columns (make_row md5 e rid g))) ''file_count'' =
       Some (MInt (card (files g))) \<and>
     (columns (make_row md5 e rid g))
        \<lparr>usage_count := usage_count (pattern g), metadata := metadata (pattern g)\<rparr> = pattern g \<and>
     ((\<forall>p\<in>set patterns. \<forall>q\<in>set patterns.
         pattern_hash md5 p = pattern_hash md5 q \<longrightarrow> pattern_key p = pattern_key q) \<longrightarrow>
       with_hash md5 h patterns =
         filter (\<lambda>q. pattern_key q = pattern_key (pattern g)) patterns)"
proof -
  let ?w = "with_hash md5 h patterns"
  from assms have "?w \<noteq> []"
    by (auto simp: with_hash_def filter_empty_conv)
  then obtain q r where w: "?w = q # r"
    by (cases ?w) auto
  define g where "g = \<lparr>pattern = q, count = length ?w, files = file_path ` set ?w\<rparr>"
  have look: "map_of (group_patterns md5 patterns) h = Some g"
    by (simp add: map_of_group_patterns w g_def)
  have one: "map snd (filter (\<lambda>kv. fst kv = h) (group_patterns md5 patterns)) = [g]"
    using filter_key_distinct [OF distinct_group_patterns look] by simp
  have c: "count g = length ?w" and f: "files g = file_path ` set ?w" and p: "pattern g = q"
    by (simp_all add: g_def)
  have "card (file_path ` set ?w) \<le> card (set ?w)"
    by (rule card_image_le) simp
  also have "\<dots> \<le> length ?w"
    by (rule card_length)
  finally have le: "card (files g) \<le> count g"
    by (simp add: c f)
  have first: "List.find (\<lambda>q. pattern_hash md5 q = h) patterns = Some (pattern g)"
    using w find_filter_hd [of "\<lambda>q. pattern_hash md5 q = h" patterns q r]
    by (simp add: with_hash_def p)
  have "q \<in> set ?w" by (simp add: w)
  then have qin: "q \<in> set patterns" and qh: "pattern_hash md5 q = h"
    by (simp_all add: with_hash_def)
  have key: "(\<forall>p\<in>set patterns. \<forall>q\<in>set patterns.
         pattern_hash md5 p = pattern_hash md5 q \<longrightarrow> pattern_key p = pattern_key q) \<longrightarrow>
       ?w = filter (\<lambda>q. pattern_key q = pattern_key (pattern g)) patterns"
  proof
    assume "\<forall>p\<in>set patterns. \<forall>q\<in>set patterns.
         pattern_hash md5 p = pattern_hash md5 q \<longrightarrow> pattern_key p = pattern_key q"
    from with_hash_by_key [OF this qin]
    show "?w = filter (\<lambda>q. pattern_key q = pattern_key (pattern g)) patterns"
      by (simp add: qh p)
  qed
  have row1: "usage_count (columns (make_row md5 e rid g)) = count g"
    by (simp add: make_row_def Let_def)
  have row2: "map_of (metadata (columns (make_row md5 e rid g))) ''files'' = Some (MFiles (files g))"
    by (simp add: make_row_def Let_def fold_file_metadata_def update_conv')
  have row3: "map_of (metadata (columns (make_row md5 e rid g))) ''file_count'' =
       Some (MInt (card (files g)))"
    by (simp add: make_row_def Let_def fold_file_metadata_def update_conv')
  have row4: "(columns (make_row md5 e rid g))
        \<lparr>usage_count := usage_count (pattern g), metadata := metadata (pattern g)\<rparr> = pattern g"
    by (simp add: make_row_def Let_def fold_file_metadata_def)
  show ?thesis
    by (intro exI [of _ g] conjI one c f le first row1 row2 row3 row4 key)
qed

lemma example_hashes:
  "map (pattern_hash (\<lambda>s. s)) example_patterns =
     [''destructuring:const {a, b} =:architecture'', ''await_usage:await:async-patterns'',
      ''destructuring:const {a, b} =:architecture'']"
  by (simp add: example_patterns_def pattern_hash_def hash_content_mk_pattern)

text \<open>The theorem at three occurrences, two of them the same snippet in two files.\<close>

theorem group_patterns_correct_witness:
  "''destructuring:const {a, b} =:architecture'' \<in> pattern_hash (\<lambda>s. s) ` set example_patterns \<and>
   (\<exists>g. map snd (filter (\<lambda>kv. fst kv = ''destructuring:const {a, b} =:architecture'')
              (group_patterns (\<lambda>s. s) example_patterns)) = [g] \<and>
        count g = 2 \<and> files g = {''a.ts'', ''b.ts''} \<and> card (files g) \<le> count g \<and>
        pattern g = mk_pattern ''destructuring'' ''const {a, b} ='' ARCHITECTURE ''a.ts'' \<and>
        usage_count (columns (make_row (\<lambda>s. s) (''id'', ''t0'', ''t1'') ''repo'' g)) = 2)"
proof -
  let ?h = "''destructuring:const {a, b} =:architecture''"
  have mem: "?h \<in> pattern_hash (\<lambda>s. s) ` set example_patterns"
    by (simp add: example_patterns_def pattern_hash_def hash_content_mk_pattern)
  have w: "with_hash (\<lambda>s. s) ?h example_patterns =
      [mk_pattern ''destructuring'' ''const {a, b} ='' ARCHITECTURE ''a.ts'',
       mk_pattern ''destructuring'' ''const {a, b} ='' ARCHITECTURE ''b.ts'']"
    by (simp add: with_hash_def example_patterns_def pattern_hash_def hash_content_mk_pattern)
  note fp = file_path_mk_pattern
  from group_patterns_correct [OF mem, of "(''id'', ''t0'', ''t1'')" "''repo''"]
  obtain g where g:
    "map snd (filter (\<lambda>kv. fst kv = ?h) (group_patterns (\<lambda>s. s) example_patterns)) = [g]"
    "count g = length (with_hash (\<lambda>s. s) ?h example_patterns)"
    "files g = file_path ` set (with_hash (\<lambda>s. s) ?h example_patterns)"
    "card (files g) \<le> count g"
    "List.find (\<lambda>q. pattern_hash (\<lambda>s. s) q = ?h) example_patterns = Some (pattern g)"
    "usage_count (columns (make_row (\<lambda>s. s) (''id'', ''t0'', ''t1'') ''repo'' g)) = count g"
    by (elim exE conjE) (rule that)
  have c: "count g = 2" using g(2) by (simp add: w)
  have f: "files g = {''a.ts'', ''b.ts''}" using g(3) by (simp add: w fp)
  have "List.find (\<lambda>q. pattern_hash (\<lambda>s. s) q = ?h) example_patterns =
      Some (mk_pattern ''destructuring'' ''const {a, b} ='' ARCHITECTURE ''a.ts'')"
    by (simp add: example_patterns_def pattern_hash_def hash_content_mk_pattern)
  with g(5) have p: "pattern g = mk_pattern ''destructuring'' ''const {a, b} ='' ARCHITECTURE ''a.ts''"
    by simp
  from g(6) c have u: "usage_count (columns (make_row (\<lambda>s. s) (''id'', ''t0'', ''t1'') ''repo'' g)) = 2"
    by simp
  show ?thesis
    by (intro conjI exI [of _ g] mem g(1) c f g(4) p u)
qed

text \<open>
  Claim C1 as stated counts by triple. The two occurrences below have different triples
  and one hashed string: for every digest they form one group of count 2 with two files,
  and only one occurrence has the representative's triple.
\<close>

theorem usage_count_by_triple_counterexample:
  "\<forall>md5 :: string \<Rightarrow> string.
     map (\<lambda>kv. (pattern (snd kv), count (snd kv), files (snd kv)))
         (group_patterns md5 colliding_patterns) =
       [(mk_pattern ''a:b'' ''c'' PERFORMANCE ''x.ts'', 2, {''x.ts'', ''y.ts''})] \<and>
     length (filter (\<lambda>q. pattern_key q =
                          pattern_key (mk_pattern ''a:b'' ''c'' PERFORMANCE ''x.ts''))
               colliding_patterns) = 1"
  by (simp add: group_patterns_def group_step_def colliding_patterns_def pattern_hash_def
      hash_content_mk_pattern pattern_key_mk_pattern file_path_mk_pattern Let_def insert_commute)

section \<open>Properties of persistence\<close>

lemma working_execute: "working (execute stmt c) = stmt (working c)"
  by (simp add: working_def execute_def)

lemma disk_execute: "disk (execute stmt c) = disk c"
  by (simp add: execute_def)

lemma insert_groups_result:
  "(case insert_groups dg env fails rid k gs c of
      Inl c' \<Rightarrow> disk c' = disk c \<and> (\<exists>i < length gs. fails (Insert (k + i)))
    | Inr c' \<Rightarrow> disk c' = disk c \<and> working c' = working c @ new_rows dg env rid k gs \<and>
               (\<forall>i < length gs. \<not> fails (Insert (k + i))))"
proof (induction gs arbitrary: k c)
  case Nil
  then show ?case by simp
next
  case (Cons x gs)
  obtain h g where x: "x = (h, g)" by (cases x)
  show ?case
  proof (cases "fails (Insert k)")
    case True
    then show ?thesis by (auto simp: x)
  next
    case False
    let ?c1 = "execute (insert_row (make_row dg (env k) rid g)) c"
    from Cons.IH [where k = "Suc k" and c = ?c1] False show ?thesis
      by (auto simp: x disk_execute working_execute insert_row_def less_Suc_eq_0_disj
          split: sum.splits)
  qed
qed

lemma repository_id_new_rows:
  "r \<in> set (new_rows md5 env rid k gs) \<Longrightarrow> repository_id r = rid"
  by (induction gs arbitrary: k) (auto simp: make_row_def Let_def)

lemma length_new_rows: "length (new_rows md5 env rid k gs) = length gs"
  by (induction gs arbitrary: k) auto

lemma save_transaction_result:
  "(case save_transaction dg env fails rid patterns (connect t) of
      Inl c \<Rightarrow> disk c = t \<and>
        (fails Delete \<or> (\<exists>i < length (group_patterns dg patterns). fails (Insert i)) \<or>
         fails Commit)
    | Inr c \<Rightarrow>
        disk c = delete_repository rid t @ new_rows dg env rid 0 (group_patterns dg patterns) \<and>
        \<not> fails Delete \<and> (\<forall>i < length (group_patterns dg patterns). \<not> fails (Insert i)) \<and>
        \<not> fails Commit)"
proof (cases "fails Delete")
  case True
  then show ?thesis by (simp add: save_transaction_def connect_def)
next
  case False
  let ?c1 = "execute (delete_repository rid) (connect t)"
  let ?gs = "group_patterns dg patterns"
  have w1: "working ?c1 = delete_repository rid t" and d1: "disk ?c1 = t"
    by (simp_all add: execute_def working_def connect_def)
  from insert_groups_result [where dg = dg and env = env and fails = fails and rid = rid
      and k = 0 and gs = ?gs and c = ?c1] False w1 d1
  show ?thesis
    by (auto simp: save_transaction_def Let_def commit_def split: sum.splits)
qed

text \<open>
  Claim C7. For a non-empty list of occurrences: when no database call raises, the call
  returns with the prior rows of the repository id removed and one row per group appended,
  so that the rows stored under the id are exactly the new ones; when any call raises,
  the table on disk is the one before the call.
\<close>

theorem save_replaces_atomically:
  assumes "patterns \<noteq> []"
  shows "(faulty fails (length (group_patterns md5 patterns)) \<longrightarrow>
            snd (save_patterns_to_database md5 env fails rid patterns t) = t) \<and>
         (\<not> faulty fails (length (group_patterns md5 patterns)) \<longrightarrow>
            save_patterns_to_database md5 env fails rid patterns t =
              (Returned, filter (\<lambda>r. repository_id r \<noteq> rid) t @
                         new_rows md5 env rid 0 (group_patterns md5 patterns)) \<and>
            filter (\<lambda>r. repository_id r = rid)
                (snd (save_patterns_to_database md5 env fails rid patterns t)) =
              new_rows md5 env rid 0 (group_patterns md5 patterns))"
proof -
  let ?gs = "group_patterns md5 patterns"
  let ?new = "new_rows md5 env rid 0 ?gs"
  have f1: "filter (\<lambda>r. repository_id r = rid) ?new = ?new"
    by (simp add: filter_id_conv repository_id_new_rows)
  have f2: "filter (\<lambda>r. repository_id r = rid) (filter (\<lambda>r. repository_id r \<noteq> rid) t) = []"
    by (simp add: filter_empty_conv)
  show ?thesis
  proof (cases "fails Connect")
    case True
    with assms show ?thesis
      by (simp add: save_patterns_to_database_def faulty_def)
  next
    case False
    from save_transaction_result [where dg = md5 and env = env and fails = fails and rid = rid
        and patterns = patterns and t = t] assms False f1 f2
    show ?thesis
      by (auto simp: save_patterns_to_database_def faulty_def close_def rollback_def
          delete_repository_def split: sum.splits)
  qed
qed

text \<open>
  Claim C10. With no occurrence the call returns with the table unchanged, whatever the
  database calls would have done; the rows stored under the repository id stay.
\<close>

theorem save_empty_is_noop:
  "save_patterns_to_database md5 env fails rid [] t = (Returned, t) \<and>
   filter (\<lambda>r. repository_id r = rid)
     (snd (save_patterns_to_database md5 env fails rid [] t)) =
   filter (\<lambda>r. repository_id r = rid) t"
  by (simp add: save_patterns_to_database_def)

lemma group_patterns_single:
  "group_patterns md5 [p] = [(pattern_hash md5 p, \<lparr>pattern = p, count = 1, files = {file_path p}\<rparr>)]"
  by (simp add: group_patterns_def group_step_def Let_def)

lemma row_id_make_row: "row_id (make_row md5 e rid g) = fst e"
  by (simp add: make_row_def Let_def)

text \<open>
  A second run with one occurrence over a table that holds two rows of the repository and
  one of another: without failure the other repository's row and the new row remain; when
  the first \<^verbatim>\<open>INSERT\<close> raises, the table is the old one.
\<close>

theorem save_replaces_atomically_witness:
  "[mk_pattern ''await_usage'' ''await'' ASYNC_PATTERNS ''c.ts''] \<noteq> [] \<and>
   map row_id (snd (save_patterns_to_database (\<lambda>s. s) example_env (\<lambda>op. False) ''repo''
      [mk_pattern ''await_usage'' ''await'' ASYNC_PATTERNS ''c.ts''] example_table)) =
     [''r3'', ''new''] \<and>
   snd (save_patterns_to_database (\<lambda>s. s) example_env (\<lambda>op. op = Insert 0) ''repo''
      [mk_pattern ''await_usage'' ''await'' ASYNC_PATTERNS ''c.ts''] example_table) =
     example_table"
proof -
  let ?ps = "[mk_pattern ''await_usage'' ''await'' ASYNC_PATTERNS ''c.ts'']"
  have ne: "?ps \<noteq> []" by simp
  have ok: "\<not> faulty (\<lambda>op. False) (length (group_patterns (\<lambda>s. s) ?ps))"
    by (simp add: faulty_def)
  have bad: "faulty (\<lambda>op. op = Insert 0) (length (group_patterns (\<lambda>s. s) ?ps))"
    by (simp add: faulty_def group_patterns_single)
  from save_replaces_atomically [OF ne, of "\<lambda>op. False" "\<lambda>s. s" example_env "''repo''" example_table] ok
  have "save_patterns_to_database (\<lambda>s. s) example_env (\<lambda>op. False) ''repo'' ?ps example_table =
      (Returned, filter (\<lambda>r. repository_id r \<noteq> ''repo'') example_table @
         new_rows (\<lambda>s. s) example_env ''repo'' 0 (group_patterns (\<lambda>s. s) ?ps))"
    by blast
  then have a: "map row_id (snd (save_patterns_to_database (\<lambda>s. s) example_env (\<lambda>op. False)
      ''repo'' ?ps example_table)) = [''r3'', ''new'']"
    by (simp add: example_table_def group_patterns_single row_id_make_row example_env_def)
  from save_replaces_atomically [OF ne, of "\<lambda>op. op = Insert 0" "\<lambda>s. s" example_env "''repo''" example_table] bad
  have b: "snd (save_patterns_to_database (\<lambda>s. s) example_env (\<lambda>op. op = Insert 0) ''repo''
      ?ps example_table) = example_table"
    by blast
  from ne a b show ?thesis by blast
qed

section \<open>Properties of line numbers and context\<close>

lemma skip_lines_le_length: "skip_lines k T \<le> length T"
  by (induction k T rule: skip_lines.induct) auto

lemma skip_lines_count_le:
  "e \<le> length T \<Longrightarrow> skip_lines (count_list (take e T) LF) T \<le> e"
proof (induction T arbitrary: e)
  case Nil
  then show ?case by simp
next
  case (Cons c cs)
  show ?case
  proof (cases e)
    case 0
    then show ?thesis by simp
  next
    case (Suc e')
    with Cons.prems have e': "e' \<le> length cs" by simp
    from Cons.IH [OF e'] show ?thesis
      by (cases "count_list (take e' cs) LF") (auto simp: Suc)
  qed
qed

lemma no_newline_from_begin:
  "e \<le> length T \<Longrightarrow>
   LF \<notin> set (drop (skip_lines (count_list (take e T) LF) T) (take e T))"
proof (induction T arbitrary: e)
  case Nil
  then show ?case by simp
next
  case (Cons c cs)
  show ?case
  proof (cases e)
    case 0
    then show ?thesis by simp
  next
    case (Suc e')
    with Cons.prems have e': "e' \<le> length cs" by simp
    from Cons.IH [OF e'] show ?thesis
      by (cases "count_list (take e' cs) LF") (auto simp: Suc)
  qed
qed

lemma length_takeWhile_ge:
  "n \<le> length xs \<Longrightarrow> \<forall>x \<in> set (take n xs). P x \<Longrightarrow> n \<le> length (takeWhile P xs)"
proof (induction xs arbitrary: n)
  case Nil
  then show ?case by simp
next
  case (Cons x xs)
  then show ?case by (cases n) auto
qed

lemma offset_le_line_finish:
  assumes "e \<le> length T"
  shows "e \<le> line_finish T (count_list (take e T) LF + 1)"
proof -
  let ?b = "skip_lines (count_list (take e T) LF) T"
  have b: "?b \<le> e" by (rule skip_lines_count_le [OF assms])
  have "drop ?b (take e T) = take (e - ?b) (drop ?b T)"
    by (simp add: drop_take)
  with no_newline_from_begin [OF assms]
  have "\<forall>x \<in> set (take (e - ?b) (drop ?b T)). x \<noteq> LF" by auto
  moreover from assms b have "e - ?b \<le> length (drop ?b T)" by simp
  ultimately have "e - ?b \<le> length (takeWhile (\<lambda>c. c \<noteq> LF) (drop ?b T))"
    by (rule length_takeWhile_ge [rotated])
  with b show ?thesis by (simp add: line_finish_def line_begin_def)
qed

lemma line_finish_le_length: "line_finish T n \<le> length T"
proof -
  have "length (takeWhile (\<lambda>c. c \<noteq> LF) (drop (line_begin T n) T)) \<le>
      length (drop (line_begin T n) T)"
    by (rule length_takeWhile_le)
  moreover have "line_begin T n \<le> length T"
    by (simp add: line_begin_def skip_lines_le_length)
  ultimately show ?thesis by (simp add: line_finish_def)
qed

lemma count_newlines_mono:
  "s \<le> e \<Longrightarrow> count_newlines content s \<le> count_newlines content e"
proof -
  assume "s \<le> e"
  then have "take e content = take s content @ take (e - s) (drop s content)"
    by (metis le_add_diff_inverse take_add)
  then show ?thesis by (simp add: count_newlines_def)
qed

lemma slice_of_slice:
  assumes "b \<le> s" "s \<le> e" "e \<le> f"
  shows "py_slice (py_slice T b f) (s - b) (e - b) = py_slice T s e"
proof -
  from assms have "e - b - (s - b) = e - s" "e - s \<le> f - b - (s - b)" "s - b + b = s"
    by simp_all
  then show ?thesis
    by (simp add: py_slice_def drop_take min_def add.commute)
qed

lemma line_start_build_pattern:
  "line_start (build_pattern n d r l fw content m) = count_newlines content (fst m) + 1"
  by (simp add: build_pattern_def Let_def)

lemma line_end_build_pattern:
  "line_end (build_pattern n d r l fw content m) = count_newlines content (snd m) + 1"
  by (simp add: build_pattern_def Let_def)

text \<open>
  Claim C3. For a match span \<open>(s, e)\<close> inside the content (every span that
  \<^verbatim>\<open>re.finditer\<close> reports for any rule), the occurrence has
  \<open>line_start = 1 + \<close> the number of newlines before offset \<open>s\<close> and
  \<open>line_end = 1 + \<close> the number of newlines before offset \<open>e\<close>; so
  \<open>1 \<le> line_start \<le> line_end\<close>, line \<open>line_start\<close> begins at or before \<open>s\<close>,
  line \<open>line_end\<close> ends at or after \<open>e\<close>, and the text from the one to the other
  contains the matched text in full.
\<close>

theorem line_numbers_enclose_match:
  assumes "s \<le> e" and "e \<le> length content"
  shows "(let p = build_pattern pattern_name pattern_def rel lang fw content (s, e);
              b = line_begin content (line_start p);
              f = line_finish content (line_end p)
          in line_start p = 1 + count_list (take s content) LF \<and>
             line_end p = 1 + count_list (take e content) LF \<and>
             1 \<le> line_start p \<and> line_start p \<le> line_end p \<and>
             b \<le> s \<and> e \<le> f \<and> f \<le> length content \<and>
             py_slice (py_slice content b f) (s - b) (e - b) = py_slice content s e)"
proof -
  let ?p = "build_pattern pattern_name pattern_def rel lang fw content (s, e)"
  let ?b = "line_begin content (line_start ?p)"
  let ?f = "line_finish content (line_end ?p)"
  have ls: "line_start ?p = 1 + count_list (take s content) LF"
    and le: "line_end ?p = 1 + count_list (take e content) LF"
    by (simp_all add: line_start_build_pattern line_end_build_pattern count_newlines_def)
  from assms have s: "s \<le> length content" by simp
  have mono: "line_start ?p \<le> line_end ?p"
    using count_newlines_mono [OF assms(1), of content]
    by (simp add: line_start_build_pattern line_end_build_pattern)
  have b: "?b \<le> s"
    using skip_lines_count_le [OF s] by (simp add: ls line_begin_def)
  have f: "e \<le> ?f"
    using offset_le_line_finish [OF assms(2)] by (simp add: le)
  have fl: "?f \<le> length content" by (rule line_finish_le_length)
  have sl: "py_slice (py_slice content ?b ?f) (s - ?b) (e - ?b) = py_slice content s e"
    by (rule slice_of_slice [OF b assms(1) f])
  have one: "1 \<le> line_start ?p" by (simp add: ls)
  show ?thesis
    unfolding Let_def by (intro conjI ls le one mono b f fl sl)
qed

lemma example_lines:
  "splitlines example_content = [''l1'', ''l2'', ''l3'', ''console.log'', ''l5'', ''l6'', ''l7'']"
  by (simp add: splitlines_def example_content_def LF_def CR_def is_linebreak_def)

lemma example_line_numbers:
  "count_newlines example_content 9 = 3" "count_newlines example_content 20 = 3"
  by (simp_all add: count_newlines_def example_content_def LF_def)

lemma example_length: "length example_content = 29"
  by (simp add: example_content_def)

lemma example_bounds:
  "line_begin example_content 4 = 9" "line_finish example_content 4 = 20"
  by (simp_all add: line_begin_def line_finish_def example_content_def LF_def eval_nat_numeral)


text \<open>
  The theorem at the match of \<^verbatim>\<open>console.log\<close> on line 4 of a file of seven lines.
\<close>

theorem line_numbers_enclose_match_witness:
  "(9::nat) \<le> 20 \<and> 20 \<le> length example_content \<and>
   py_slice example_content 9 20 = ''console.log'' \<and>
   line_start example_occurrence = 4 \<and> line_end example_occurrence = 4 \<and>
   line_begin example_content 4 = 9 \<and> line_finish example_content 4 = 20 \<and>
   py_slice (py_slice example_content 9 20) (9 - 9) (20 - 9) = ''console.log''"
proof -
  have h1: "(9::nat) \<le> 20" by simp
  have h2: "20 \<le> length example_content" by (simp add: example_length)
  have m: "py_slice example_content 9 20 = ''console.log''"
    by (simp add: py_slice_def example_content_def)
  note T = line_numbers_enclose_match [OF h1 h2, of "''console_statements''" example_rule
      "''src/a.ts''" "''typescript''" None, unfolded Let_def, folded example_occurrence_def]
  from T have ls: "line_start example_occurrence = 1 + count_list (take 9 example_content) LF"
    by (elim conjE)
  from T have le: "line_end example_occurrence = 1 + count_list (take 20 example_content) LF"
    by (elim conjE)
  from T have sl: "py_slice (py_slice example_content
                 (line_begin example_content (line_start example_occurrence))
                 (line_finish example_content (line_end example_occurrence)))
               (9 - line_begin example_content (line_start example_occurrence))
               (20 - line_begin example_content (line_start example_occurrence)) =
             py_slice example_content 9 20"
    by (elim conjE)
  from ls le example_line_numbers
  have l4: "line_start example_occurrence = 4" "line_end example_occurrence = 4"
    by (simp_all add: count_newlines_def)
  from sl have "py_slice (py_slice example_content 9 20) (9 - 9) (20 - 9) = ''console.log''"
    by (simp only: l4 example_bounds m)
  with h1 h2 m l4 example_bounds show ?thesis by simp
qed

lemma is_linebreak_LF: "is_linebreak LF"
  by (simp add: is_linebreak_def LF_def)

lemma CR_neq_LF: "CR \<noteq> LF"
  by (simp add: CR_def LF_def)

lemma count_newlines_le_lines_from:
  "count_list T LF \<le> length (splitlines_from cur T)"
proof (induction cur T rule: splitlines_from.induct)
  case (1 cur)
  then show ?case by simp
next
  case (2 cur c cs)
  show ?case
  proof (cases "c = CR")
    case True
    show ?thesis
    proof (cases cs)
      case Nil
      with True show ?thesis by (simp add: CR_neq_LF)
    next
      case (Cons d ds)
      show ?thesis
      proof (cases "d = LF")
        case dLF: True
        from "2.IH"(1) [OF True Cons dLF] show ?thesis
          by (simp add: True Cons dLF CR_neq_LF)
      next
        case dn: False
        from "2.IH"(2) [OF True Cons dn] show ?thesis
          by (simp add: True Cons dn CR_neq_LF)
      qed
    qed
  next
    case False
    show ?thesis
    proof (cases "is_linebreak c")
      case lb: True
      from "2.IH"(3) [OF False lb] show ?thesis
        by (simp add: False lb)
    next
      case nlb: False
      then have "c \<noteq> LF" using is_linebreak_LF by auto
      with "2.IH"(4) [OF False nlb] show ?thesis
        by (simp add: False nlb)
    qed
  qed
qed

lemma count_newlines_le_lines:
  "count_newlines content k \<le> length (splitlines content)"
proof -
  have "count_list (take k content) LF \<le> count_list (take k content @ drop k content) LF"
    by (simp only: count_list_append le_add1)
  also have "\<dots> \<le> length (splitlines content)"
    by (simp add: splitlines_def count_newlines_le_lines_from)
  finally show ?thesis by (simp add: count_newlines_def)
qed

lemma context_before_build_pattern:
  "context_before (build_pattern n d r l fw content m) =
     join [LF] (py_slice (splitlines content) (count_newlines content (fst m) + 1 - 3)
                         (count_newlines content (fst m) + 1 - 1))"
  by (simp add: build_pattern_def Let_def)

lemma context_after_build_pattern:
  "context_after (build_pattern n d r l fw content m) =
     join [LF] (py_slice (splitlines content) (count_newlines content (snd m) + 1)
        (min (length (splitlines content)) (count_newlines content (snd m) + 1 + 2)))"
  by (simp add: build_pattern_def Let_def)

section \<open>Properties of the report\<close>

lemma sum_bump: "sum_list (map snd (bump k d)) = sum_list (map snd d) + 1"
proof -
  have "sum_list (map snd (AList.update k (case map_of d k of None \<Rightarrow> 1 | Some n \<Rightarrow> n + 1) d)) =
      sum_list (map snd d) + 1"
  proof (induction d)
    case Nil
    then show ?case by simp
  next
    case (Cons x d)
    then show ?case by (cases x) (auto split: option.splits)
  qed
  then show ?thesis by (simp add: bump_def)
qed

lemma sum_fold_bump:
  "sum_list (map snd (foldl (\<lambda>d p. bump (key p) d) d0 ps)) = sum_list (map snd d0) + length ps"
  by (induction ps arbitrary: d0) (simp_all add: sum_bump)

lemma counts_by_sum: "sum_list (map snd (counts_by key ps)) = length ps"
  by (simp add: counts_by_def sum_fold_bump)

text \<open>The counts per severity label and per category add up to the number of occurrences.\<close>

lemma report_counts_sum:
  "generate_pattern_report now rp ps = Report r \<Longrightarrow>
   sum_list (map snd (severity_breakdown r)) = total_patterns r \<and>
   sum_list (map snd (category_breakdown r)) = total_patterns r"
  by (auto simp: generate_pattern_report_def counts_by_sum split: if_splits)

text \<open>
  Claim C4, evaluated. The report labels a score by the ranges \<open>\<ge> 0.9\<close>, \<open>\<ge> 0.6\<close>,
  \<open>\<ge> 0.3\<close>, so the score of a rule of severity \<^verbatim>\<open>LOW\<close> is counted as
  \<^verbatim>\<open>medium\<close>, \<^verbatim>\<open>MEDIUM\<close> as \<^verbatim>\<open>high\<close>, \<^verbatim>\<open>HIGH\<close> and \<^verbatim>\<open>CRITICAL\<close> as
  \<^verbatim>\<open>critical\<close>: one tier above the rule's own, where the claim expects the same tier.
  The report of the single occurrence of the \<^verbatim>\<open>MEDIUM\<close> rule
  \<^verbatim>\<open>console_statements\<close> counts it under \<^verbatim>\<open>high\<close>.
\<close>

theorem severity_label_of_rule_severities:
  "severity_label (severity_value LOW) = ''medium'' \<and>
   severity_label (severity_value MEDIUM) = ''high'' \<and>
   severity_label (severity_value HIGH) = ''critical'' \<and>
   severity_label (severity_value CRITICAL) = ''critical'' \<and>
   (\<exists>r. generate_pattern_report ''now'' ''repo'' [example_occurrence] = Report r \<and>
        confidence_score example_occurrence = 0.6 \<and>
        severity_breakdown r = [(''high'', 1)])"
  by (simp add: severity_label_def generate_pattern_report_def counts_by_def bump_def
      example_occurrence_def build_pattern_def Let_def example_rule_def)

section \<open>The derivative search agrees with matching\<close>

inductive_cases match_EmptyE: "rx_match Empty w"
inductive_cases match_EpsE: "rx_match Eps w"
inductive_cases match_AtomE: "rx_match (Atom a) w"
inductive_cases match_AltE: "rx_match (Alt r s) w"
inductive_cases match_SeqE: "rx_match (Seq r s) w"

lemma match_Empty_iff: "rx_match Empty w \<longleftrightarrow> False"
  by (auto elim: match_EmptyE)

lemma match_Eps_iff: "rx_match Eps w \<longleftrightarrow> w = []"
  by (auto elim: match_EpsE intro: rx_match.intros)

lemma match_Atom_iff: "rx_match (Atom a) w \<longleftrightarrow> (\<exists>c. w = [c] \<and> atom_matches a c)"
  by (auto elim: match_AtomE intro: rx_match.intros)

lemma match_Alt_iff: "rx_match (Alt r s) w \<longleftrightarrow> rx_match r w \<or> rx_match s w"
  by (auto elim: match_AltE intro: rx_match.intros)

lemma match_Seq_iff:
  "rx_match (Seq r s) w \<longleftrightarrow> (\<exists>u v. w = u @ v \<and> rx_match r u \<and> rx_match s v)"
proof
  assume "rx_match (Seq r s) w"
  then show "\<exists>u v. w = u @ v \<and> rx_match r u \<and> rx_match s v"
    by (rule match_SeqE) blast
next
  assume "\<exists>u v. w = u @ v \<and> rx_match r u \<and> rx_match s v"
  then obtain u v where "w = u @ v" "rx_match r u" "rx_match s v" by blast
  then show "rx_match (Seq r s) w" by (simp add: match_Seq)
qed

lemmas match_iffs = match_Empty_iff match_Eps_iff match_Atom_iff match_Alt_iff match_Seq_iff

lemma match_alt: "rx_match (alt r s) w \<longleftrightarrow> rx_match r w \<or> rx_match s w"
  by (induction r s rule: alt.induct) (simp_all add: match_Alt_iff match_Empty_iff)

lemma match_seq:
  "rx_match (seq r s) w \<longleftrightarrow> (\<exists>u v. w = u @ v \<and> rx_match r u \<and> rx_match s v)"
  by (induction r s rule: seq.induct) (simp_all add: match_iffs)

lemma nullable_match: "nullable r \<longleftrightarrow> rx_match r []"
  by (induction r) (auto simp: match_iffs intro: match_StarNil)

lemma match_Star_Cons:
  assumes "rx_match (Star r) x" and "x = c # w"
  shows "\<exists>u v. w = u @ v \<and> rx_match r (c # u) \<and> rx_match (Star r) v"
  using assms
proof (induction "Star r" x arbitrary: w rule: rx_match.induct)
  case match_StarNil
  then show ?case by simp
next
  case (match_StarStep u v)
  show ?case
  proof (cases u)
    case Nil
    with match_StarStep.prems have "v = c # w" by simp
    then show ?thesis by (rule match_StarStep.hyps(4))
  next
    case (Cons a u')
    with match_StarStep.prems have "a = c" and w: "w = u' @ v" by simp_all
    with match_StarStep.hyps(1) Cons have "rx_match r (c # u')" by simp
    with w match_StarStep.hyps(3) show ?thesis by (intro exI [of _ u'] exI [of _ v]) simp
  qed
qed

lemma match_Star_Cons_iff:
  "rx_match (Star r) (c # w) \<longleftrightarrow>
     (\<exists>u v. w = u @ v \<and> rx_match r (c # u) \<and> rx_match (Star r) v)"
proof
  assume "rx_match (Star r) (c # w)"
  then show "\<exists>u v. w = u @ v \<and> rx_match r (c # u) \<and> rx_match (Star r) v"
    by (rule match_Star_Cons) simp
next
  assume "\<exists>u v. w = u @ v \<and> rx_match r (c # u) \<and> rx_match (Star r) v"
  then obtain u v where "w = u @ v" "rx_match r (c # u)" "rx_match (Star r) v" by blast
  then show "rx_match (Star r) (c # w)"
    using match_StarStep [of r "c # u" v] by simp
qed

lemma match_deriv: "rx_match (deriv c r) w \<longleftrightarrow> rx_match r (c # w)"
proof (induction r arbitrary: w)
  case Empty
  then show ?case by (simp add: match_iffs)
next
  case Eps
  then show ?case by (simp add: match_iffs)
next
  case (Atom a)
  then show ?case by (simp add: match_iffs)
next
  case (Alt r s)
  then show ?case by (simp add: match_alt match_Alt_iff)
next
  case (Seq r s)
  have "rx_match (Seq r s) (c # w) \<longleftrightarrow>
      (rx_match r [] \<and> rx_match s (c # w)) \<or>
      (\<exists>u v. w = u @ v \<and> rx_match r (c # u) \<and> rx_match s v)"
    unfolding match_Seq_iff
  proof
    assume "\<exists>u v. c # w = u @ v \<and> rx_match r u \<and> rx_match s v"
    then obtain u v where uv: "c # w = u @ v" "rx_match r u" "rx_match s v" by blast
    show "(rx_match r [] \<and> rx_match s (c # w)) \<or>
      (\<exists>u v. w = u @ v \<and> rx_match r (c # u) \<and> rx_match s v)"
    proof (cases u)
      case Nil
      with uv show ?thesis by simp
    next
      case (Cons a u')
      with uv have "a = c" "w = u' @ v" by simp_all
      with uv Cons show ?thesis by blast
    qed
  next
    assume "(rx_match r [] \<and> rx_match s (c # w)) \<or>
      (\<exists>u v. w = u @ v \<and> rx_match r (c # u) \<and> rx_match s v)"
    then show "\<exists>u v. c # w = u @ v \<and> rx_match r u \<and> rx_match s v"
    proof
      assume "rx_match r [] \<and> rx_match s (c # w)"
      then show ?thesis by (intro exI [of _ "[]"] exI [of _ "c # w"]) simp
    next
      assume "\<exists>u v. w = u @ v \<and> rx_match r (c # u) \<and> rx_match s v"
      then obtain u v where "w = u @ v" "rx_match r (c # u)" "rx_match s v" by blast
      then show ?thesis by (intro exI [of _ "c # u"] exI [of _ v]) simp
    qed
  qed
  moreover have "rx_match (deriv c (Seq r s)) w \<longleftrightarrow>
      (rx_match r [] \<and> rx_match s (c # w)) \<or>
      (\<exists>u v. w = u @ v \<and> rx_match r (c # u) \<and> rx_match s v)"
  proof (cases "nullable r")
    case True
    then have "rx_match r []" by (simp add: nullable_match)
    with True show ?thesis
      by (simp add: match_alt match_seq Seq.IH disj_commute)
  next
    case False
    then have "\<not> rx_match r []" by (simp add: nullable_match)
    with False show ?thesis
      by (simp add: match_seq Seq.IH)
  qed
  ultimately show ?case by (simp only:)
next
  case (Star r)
  then show ?case
    by (simp add: match_seq match_Star_Cons_iff)
qed

lemma re_fullmatch_iff: "re_fullmatch r s \<longleftrightarrow> rx_match r s"
proof -
  have "nullable (foldl (\<lambda>r c. deriv c r) r s) \<longleftrightarrow> rx_match r s"
    by (induction s arbitrary: r) (simp_all add: nullable_match match_deriv)
  then show ?thesis by (simp add: re_fullmatch_def)
qed

lemma match_any_star: "rx_match (Star (Atom AnyChar)) w"
proof (induction w)
  case Nil
  then show ?case by (rule match_StarNil)
next
  case (Cons c w)
  have "rx_match (Atom AnyChar) [c]" by (rule match_Atom) simp
  from match_StarStep [OF this Cons] show ?case by simp
qed

text \<open>The search finds exactly the contents with a matching substring.\<close>

lemma re_search_iff:
  "re_search r s \<longleftrightarrow> (\<exists>pre m post. s = pre @ m @ post \<and> rx_match r m)"
proof -
  have "re_search r s \<longleftrightarrow>
      (\<exists>u v. s = u @ v \<and> (\<exists>m post. v = m @ post \<and> rx_match r m))"
    by (simp add: re_search_def re_fullmatch_iff match_Seq_iff match_any_star)
  also have "\<dots> \<longleftrightarrow> (\<exists>pre m post. s = pre @ m @ post \<and> rx_match r m)"
    by blast
  finally show ?thesis .
qed

section \<open>Properties of the corpus walk and of the classification\<close>

lemmas rx_eval = re_search_def re_fullmatch_def react_rx_def vue_rx_def angular_rx_def
  express_rx_def nodejs_rx_def lit_def liti_def plus_def quote_def ascii_lower_def
  isspace_def LF_def

lemma rglob_no_files:
  "ignore_error errno \<Longrightarrow> rglob (Stat_fails errno) ext = Inr []"
  "rglob Not_a_directory ext = Inr []"
  "rglob Listing_denied ext = Inr []"
  "rglob (Listing []) ext = Inr []"
  by (simp_all add: rglob_def)

lemma rglob_raises:
  "\<not> ignore_error errno \<Longrightarrow> rglob (Stat_fails errno) ext = Inl (OSError errno)"
  "rglob (Walk_fails errno) ext = Inl (OSError errno)"
  by (simp_all add: rglob_def)

lemma rglob_never_corpus_not_found: "rglob tree ext \<noteq> Inl CorpusNotFoundError"
  by (cases tree) (simp_all add: rglob_def)

lemma extract_never_corpus_not_found:
  "extract_patterns_from_repository finditer repository_path tree patterns \<noteq>
     Inl CorpusNotFoundError"
  using rglob_never_corpus_not_found [of tree]
  by (auto simp: extract_patterns_from_repository_def Let_def split: sum.splits)

text \<open>
  Claim C8 (as the code has it). When the root does not exist (\<^verbatim>\<open>stat\<close> fails with
  one of the error numbers that \<^verbatim>\<open>is_dir\<close> ignores), is not a directory, or is a
  directory whose listing is denied, the walk finds no file: extraction returns the
  occurrence list it started with, whatever the matcher, and raises nothing, and the
  report of an empty list says that no patterns were found. When \<^verbatim>\<open>stat\<close> of the root
  fails with any other error number, the call ends with that \<^verbatim>\<open>OSError\<close> and no
  occurrence list, whatever the matcher. In no case is the error
  \<^verbatim>\<open>CorpusNotFoundError\<close>.
\<close>

theorem missing_root_behaviour:
  "(ignore_error errno \<longrightarrow>
      extract_patterns_from_repository finditer repository_path (Stat_fails errno) patterns =
        Inr patterns) \<and>
   (\<not> ignore_error errno \<longrightarrow>
      extract_patterns_from_repository finditer repository_path (Stat_fails errno) patterns =
        Inl (OSError errno)) \<and>
   extract_patterns_from_repository finditer repository_path Not_a_directory patterns =
     Inr patterns \<and>
   extract_patterns_from_repository finditer repository_path Listing_denied patterns =
     Inr patterns \<and>
   extract_patterns_from_repository finditer repository_path tree patterns \<noteq>
     Inl CorpusNotFoundError \<and>
   generate_pattern_report now repository_path [] = No_patterns_found"
  using extract_never_corpus_not_found [of finditer repository_path tree patterns]
  by (simp add: extract_patterns_from_repository_def rglob_no_files rglob_raises
      generate_pattern_report_def)

text \<open>
  A root that does not exist, and a root whose name is too long to be examined.
\<close>

theorem missing_root_behaviour_witness:
  "ignore_error ''ENOENT'' \<and>
   extract_patterns_from_repository (\<lambda>n c. [(0, 1)]) ''/missing'' (Stat_fails ''ENOENT'') [] =
     Inr [] \<and>
   \<not> ignore_error ''ENAMETOOLONG'' \<and>
   extract_patterns_from_repository (\<lambda>n c. [(0, 1)]) ''/missing''
     (Stat_fails ''ENAMETOOLONG'') [] = Inl (OSError ''ENAMETOOLONG'')"
  using missing_root_behaviour [of "''ENOENT''" "\<lambda>n c. [(0, 1)]" "''/missing''" "[]"]
    missing_root_behaviour [of "''ENAMETOOLONG''" "\<lambda>n c. [(0, 1)]" "''/missing''" "[]"]
  by (simp add: ignore_error_def)

text \<open>
  Claim C8 as stated expects \<^verbatim>\<open>CorpusNotFoundError\<close>. For a missing root the run
  returns the empty list, the same result as for an existing root without files.
\<close>

theorem missing_root_counterexample:
  "\<forall>finditer.
     extract_patterns_from_repository finditer ''/missing'' (Stat_fails ''ENOENT'') [] =
       Inr [] \<and>
     extract_patterns_from_repository finditer ''/missing'' (Stat_fails ''ENOENT'') [] =
       extract_patterns_from_repository finditer ''/missing'' (Listing []) [] \<and>
     extract_patterns_from_repository finditer ''/missing'' (Stat_fails ''ENOENT'') [] \<noteq>
       Inl CorpusNotFoundError"
  by (simp add: extract_patterns_from_repository_def rglob_def ignore_error_def)

text \<open>
  Claim C6 (as the code has it). The heuristics are tried in order and the first match
  wins: a content matching the React expression is classified \<^verbatim>\<open>react\<close>, otherwise
  one matching the Vue expression \<^verbatim>\<open>vue\<close>, otherwise one matching the Angular expression
  \<^verbatim>\<open>angular\<close>, in each case whether or not the module-system expression matches too.
  When no expression matches and the path does not contain \<^verbatim>\<open>node\<close>, the framework
  is \<open>None\<close>; it is never the empty string.
\<close>

theorem framework_priority:
  "(re_search react_rx content \<longrightarrow> determine_framework content path = Some ''react'') \<and>
   (\<not> re_search react_rx content \<and> re_search vue_rx content \<longrightarrow>
      determine_framework content path = Some ''vue'') \<and>
   (\<not> re_search react_rx content \<and> \<not> re_search vue_rx content \<and>
    re_search angular_rx content \<longrightarrow>
      determine_framework content path = Some ''angular'') \<and>
   (\<not> re_search react_rx content \<and> \<not> re_search vue_rx content \<and>
    \<not> re_search angular_rx content \<and> \<not> re_search express_rx content \<and>
    \<not> re_search nodejs_rx content \<and> \<not> contains ''node'' path \<longrightarrow>
      determine_framework content path = None) \<and>
   determine_framework content path \<noteq> Some ''''"
  by (simp add: determine_framework_def)

lemma react_and_module:
  "re_search react_rx ''import react;require(''" "re_search nodejs_rx ''import react;require(''"
  by (simp_all add: rx_eval)

lemma no_heuristic:
  "\<not> re_search react_rx ''let x = 1''" "\<not> re_search vue_rx ''let x = 1''"
  "\<not> re_search angular_rx ''let x = 1''" "\<not> re_search express_rx ''let x = 1''"
  "\<not> re_search nodejs_rx ''let x = 1''"
  by (simp_all add: rx_eval)

lemma contains_node:
  "contains ''node'' ''src/node/a.ts''" "\<not> contains ''node'' ''src/a.ts''"
  "\<not> contains ''node'' ''lib/b.ts''"
  by simp_all

text \<open>
  A content that imports React and calls \<^verbatim>\<open>require(\<close> is \<^verbatim>\<open>react\<close>; a content
  matching nothing, at a path without \<^verbatim>\<open>node\<close>, has no framework.
\<close>

theorem framework_priority_witness:
  "re_search react_rx ''import react;require('' \<and> re_search nodejs_rx ''import react;require('' \<and>
   determine_framework ''import react;require('' ''src/a.ts'' = Some ''react'' \<and>
   \<not> re_search react_rx ''let x = 1'' \<and> \<not> re_search vue_rx ''let x = 1'' \<and>
   \<not> re_search angular_rx ''let x = 1'' \<and> \<not> re_search express_rx ''let x = 1'' \<and>
   \<not> re_search nodejs_rx ''let x = 1'' \<and> \<not> contains ''node'' ''src/a.ts'' \<and>
   determine_framework ''let x = 1'' ''src/a.ts'' = None"
  using framework_priority [of "''import react;require(''" "''src/a.ts''"]
    framework_priority [of "''let x = 1''" "''src/a.ts''"]
    react_and_module no_heuristic contains_node
  by blast

text \<open>
  Claim C6 as stated gives no framework to every content that matches none of the
  heuristics. The content \<^verbatim>\<open>x\<close> matches none of the five expressions, and at a path
  that contains \<^verbatim>\<open>node\<close> it is classified \<^verbatim>\<open>nodejs\<close>.
\<close>

theorem framework_absent_counterexample:
  "\<not> re_search react_rx ''x'' \<and> \<not> re_search vue_rx ''x'' \<and> \<not> re_search angular_rx ''x'' \<and>
   \<not> re_search express_rx ''x'' \<and> \<not> re_search nodejs_rx ''x'' \<and>
   determine_framework ''x'' ''src/node/a.ts'' = Some ''nodejs''"
  by (simp add: determine_framework_def rx_eval)

text \<open>
  Claim C9 (as the code has it). The path enters the classification only through the test
  \<^verbatim>\<open>'node' in str(file_path)\<close>: two files of the same content get the same framework
  when their paths agree on containing \<^verbatim>\<open>node\<close>, and also when the content matches
  one of the five expressions.
\<close>

theorem framework_path_dependence:
  "((contains ''node'' p1 \<longleftrightarrow> contains ''node'' p2) \<longrightarrow>
      determine_framework content p1 = determine_framework content p2) \<and>
   (re_search react_rx content \<or> re_search vue_rx content \<or> re_search angular_rx content \<or>
    re_search express_rx content \<or> re_search nodejs_rx content \<longrightarrow>
      determine_framework content p1 = determine_framework content p2)"
  by (simp add: determine_framework_def)

text \<open>
  Two paths without \<^verbatim>\<open>node\<close> for a content that matches nothing, and a path with
  and one without \<^verbatim>\<open>node\<close> for a content that matches.
\<close>

theorem framework_path_dependence_witness:
  "(contains ''node'' ''src/a.ts'' \<longleftrightarrow> contains ''node'' ''lib/b.ts'') \<and>
   determine_framework ''let x = 1'' ''src/a.ts'' = determine_framework ''let x = 1'' ''lib/b.ts'' \<and>
   re_search nodejs_rx ''import react;require('' \<and>
   determine_framework ''import react;require('' ''src/node/a.ts'' =
     determine_framework ''import react;require('' ''src/a.ts''"
  using framework_path_dependence [of "''src/a.ts''" "''lib/b.ts''" "''let x = 1''"]
    framework_path_dependence [of "''src/node/a.ts''" "''src/a.ts''" "''import react;require(''"]
    react_and_module contains_node
  by blast

text \<open>
  Claim C9 as stated makes the framework a function of the content alone. The same
  content is \<^verbatim>\<open>nodejs\<close> under a directory \<^verbatim>\<open>node\<close> and has no framework elsewhere.
\<close>

theorem framework_path_counterexample:
  "determine_framework ''let x = 1'' ''src/node/a.ts'' = Some ''nodejs'' \<and>
   determine_framework ''let x = 1'' ''src/a.ts'' = None"
  using no_heuristic contains_node by (simp add: determine_framework_def)

section \<open>Further facts about lines, the registry and digests\<close>

text \<open>
  \<open>skip_lines\<close>, \<open>line_begin\<close> and \<open>line_finish\<close> are what their names say: the
  offset after the \<open>k\<close>-th newline has \<open>k\<close> newlines before it and follows a newline;
  a line ends at a newline or at the end of the text and contains no newline.
\<close>

lemma count_before_skip_lines:
  "k \<le> count_list T LF \<Longrightarrow> count_list (take (skip_lines k T) T) LF = k"
  by (induction k T rule: skip_lines.induct) auto

lemma skip_lines_after_newline:
  "k \<le> count_list T LF \<Longrightarrow> 0 < k \<Longrightarrow>
   0 < skip_lines k T \<and> T ! (skip_lines k T - 1) = LF"
proof (induction k T rule: skip_lines.induct)
  case (1 T)
  then show ?case by simp
next
  case (2 k)
  then show ?case by simp
next
  case (3 k c cs)
  show ?case
  proof (cases "c = LF")
    case True
    show ?thesis
    proof (cases k)
      case 0
      with True show ?thesis by simp
    next
      case (Suc j)
      with 3 True show ?thesis by simp
    qed
  next
    case False
    with 3 show ?thesis by simp
  qed
qed

lemma line_finish_at_newline:
  assumes "line_finish T n < length T"
  shows "T ! line_finish T n = LF"
proof -
  define b where "b = line_begin T n"
  define r where "r = drop b T"
  define k where "k = length (takeWhile (\<lambda>c. c \<noteq> LF) r)"
  have b: "b \<le> length T"
    unfolding b_def line_begin_def by (rule skip_lines_le_length)
  have f: "line_finish T n = b + k"
    by (simp only: line_finish_def b_def r_def k_def)
  from assms f b have "k < length r" by (simp add: r_def)
  then have "length (takeWhile (\<lambda>c. c \<noteq> LF) r) < length r" by (simp only: k_def)
  from nth_length_takeWhile [OF this] have "r ! k = LF" by (simp only: k_def not_not)
  moreover from b have "r ! k = T ! (b + k)" unfolding r_def by (rule nth_drop)
  ultimately show ?thesis by (simp only: f)
qed

lemma no_newline_in_line:
  "LF \<notin> set (py_slice T (line_begin T n) (line_finish T n))"
proof -
  let ?r = "drop (line_begin T n) T"
  have "py_slice T (line_begin T n) (line_finish T n) =
      take (length (takeWhile (\<lambda>c. c \<noteq> LF) ?r)) ?r"
    by (simp add: py_slice_def line_finish_def)
  also have "\<dots> = takeWhile (\<lambda>c. c \<noteq> LF) ?r"
    by (rule takeWhile_eq_take [symmetric])
  finally have "py_slice T (line_begin T n) (line_finish T n) =
      takeWhile (\<lambda>c. c \<noteq> LF) ?r" .
  moreover have "LF \<notin> set (takeWhile (\<lambda>c. c \<noteq> LF) ?r)"
    by (auto dest: set_takeWhileD)
  ultimately show ?thesis by simp
qed

text \<open>
  No rule id of the registry contains a colon, so for occurrences built from the registry
  the hashed string determines the triple; and a digest with finitely many values merges
  two records with the same rule id and different text into one group.
\<close>

lemma registry_names_colon_free:
  "(n, d) \<in> set pattern_definitions \<Longrightarrow> CHR '':'' \<notin> set n"
  by (auto simp: pattern_definitions_def)

lemma registry_names_distinct: "distinct (map fst pattern_definitions)"
  by (simp add: pattern_definitions_def)

lemma pattern_type_build_pattern:
  "pattern_type (build_pattern n d r l fw content m) = n"
  by (simp add: build_pattern_def Let_def)

lemma registry_hash_content_inj:
  assumes "(n1, d1) \<in> set pattern_definitions" and "(n2, d2) \<in> set pattern_definitions"
    and "hash_content (build_pattern n1 d1 r1 l1 fw1 c1 m1) =
         hash_content (build_pattern n2 d2 r2 l2 fw2 c2 m2)"
  shows "pattern_key (build_pattern n1 d1 r1 l1 fw1 c1 m1) =
         pattern_key (build_pattern n2 d2 r2 l2 fw2 c2 m2)"
  using assms(3)
  by (rule hash_content_inj)
     (simp_all add: pattern_type_build_pattern registry_names_colon_free [OF assms(1)]
        registry_names_colon_free [OF assms(2)])

lemma finite_digest_merges_groups:
  fixes md5 :: "string \<Rightarrow> 'h"
  assumes "finite (UNIV :: 'h set)"
  shows "\<exists>c d. c \<noteq> d \<and>
    length (group_patterns md5
      [mk_pattern ''await_usage'' c ASYNC_PATTERNS f,
       mk_pattern ''await_usage'' d ASYNC_PATTERNS f]) = 1"
proof -
  from finite_digest_collision [OF assms, of md5 f]
  obtain c d where "c \<noteq> d"
    "pattern_hash md5 (mk_pattern ''await_usage'' c ASYNC_PATTERNS f) =
     pattern_hash md5 (mk_pattern ''await_usage'' d ASYNC_PATTERNS f)"
    by blast
  then show ?thesis
    by (intro exI [of _ c] exI [of _ d]) (simp add: group_patterns_def group_step_def Let_def)
qed

text \<open>
  When newlines are the only line boundaries of a text, the lines of
  \<^verbatim>\<open>splitlines\<close> are the lines that \<open>line_start\<close> and \<open>line_end\<close> number:
  element \<open>n - 1\<close> is the text from \<open>line_begin\<close> to \<open>line_finish\<close> of line \<open>n\<close>.
\<close>

lemma only_LF_Cons: "only_LF (c # cs) \<longleftrightarrow> (is_linebreak c \<longrightarrow> c = LF) \<and> only_LF cs"
  by (simp add: only_LF_def)

lemma is_linebreak_CR: "is_linebreak CR"
  by (simp add: is_linebreak_def CR_def)

lemma only_LF_drop: "only_LF T \<Longrightarrow> only_LF (drop k T)"
  by (auto simp: only_LF_def dest: in_set_dropD)

lemma splitlines_from_only_LF:
  "only_LF T \<Longrightarrow>
   splitlines_from cur T =
     (if LF \<in> set T
      then (cur @ takeWhile (\<lambda>c. c \<noteq> LF) T) #
           splitlines_from [] (drop (Suc (length (takeWhile (\<lambda>c. c \<noteq> LF) T))) T)
      else if cur @ T = [] then [] else [cur @ T])"
proof (induction T arbitrary: cur)
  case Nil
  then show ?case by simp
next
  case (Cons c cs)
  from Cons.prems have lb: "is_linebreak c \<longrightarrow> c = LF" and cs: "only_LF cs"
    by (simp_all add: only_LF_Cons)
  from lb have ncr: "c \<noteq> CR" using is_linebreak_CR CR_neq_LF by auto
  show ?case
  proof (cases "c = LF")
    case True
    with ncr show ?thesis by (simp add: is_linebreak_LF)
  next
    case False
    with lb have nlb: "\<not> is_linebreak c" by auto
    from Cons.IH [OF cs, of "cur @ [c]"] False ncr nlb show ?thesis by simp
  qed
qed

lemma skip_lines_Suc:
  "LF \<in> set T \<Longrightarrow>
   skip_lines (Suc m) T =
     Suc (length (takeWhile (\<lambda>c. c \<noteq> LF) T)) +
     skip_lines m (drop (Suc (length (takeWhile (\<lambda>c. c \<noteq> LF) T))) T)"
  by (induction T) auto

lemma nth_line_only_LF:
  "only_LF T \<Longrightarrow> n < length (splitlines_from [] T) \<Longrightarrow>
   splitlines_from [] T ! n =
     py_slice T (skip_lines n T)
       (skip_lines n T + length (takeWhile (\<lambda>c. c \<noteq> LF) (drop (skip_lines n T) T)))"
proof (induction n arbitrary: T)
  case 0
  have tw: "take (length (takeWhile (\<lambda>c. c \<noteq> LF) T)) T = takeWhile (\<lambda>c. c \<noteq> LF) T"
    by (rule takeWhile_eq_take [symmetric])
  show ?case
  proof (cases "LF \<in> set T")
    case True
    with 0 tw show ?thesis
      by (simp add: splitlines_from_only_LF [OF "0.prems"(1)] py_slice_def)
  next
    case False
    then have "takeWhile (\<lambda>c. c \<noteq> LF) T = T" by (auto simp: takeWhile_eq_all_conv)
    with tw have tk: "take (length (takeWhile (\<lambda>c. c \<noteq> LF) T)) T = T" by (rule trans)
    from 0 False show ?thesis
      by (simp add: splitlines_from_only_LF [OF "0.prems"(1)] py_slice_def tk split: if_splits)
  qed
next
  case (Suc m)
  let ?j = "Suc (length (takeWhile (\<lambda>c. c \<noteq> LF) T))"
  let ?rest = "drop ?j T"
  from Suc.prems have LFin: "LF \<in> set T"
    by (simp add: splitlines_from_only_LF [OF Suc.prems(1)] split: if_splits)
  with Suc.prems have m: "m < length (splitlines_from [] ?rest)"
    by (simp add: splitlines_from_only_LF [OF Suc.prems(1)])
  have rest: "only_LF ?rest" by (rule only_LF_drop [OF Suc.prems(1)])
  from LFin have nth: "splitlines_from [] T ! Suc m = splitlines_from [] ?rest ! m"
    by (simp add: splitlines_from_only_LF [OF Suc.prems(1)])
  have sk: "skip_lines (Suc m) T = ?j + skip_lines m ?rest"
    by (rule skip_lines_Suc [OF LFin])
  have dr: "drop (?j + skip_lines m ?rest) T = drop (skip_lines m ?rest) ?rest"
    by (simp only: drop_drop add.commute)
  have "py_slice T (?j + skip_lines m ?rest)
          (?j + skip_lines m ?rest +
             length (takeWhile (\<lambda>c. c \<noteq> LF) (drop (?j + skip_lines m ?rest) T))) =
        py_slice ?rest (skip_lines m ?rest)
          (skip_lines m ?rest +
             length (takeWhile (\<lambda>c. c \<noteq> LF) (drop (skip_lines m ?rest) ?rest)))"
    unfolding py_slice_def dr by simp
  with Suc.IH [OF rest m] nth sk show ?case by (simp only:)
qed

lemma splitlines_nth_line:
  assumes "only_LF content" and "1 \<le> n" and "n \<le> length (splitlines content)"
  shows "splitlines content ! (n - 1) =
     py_slice content (line_begin content n) (line_finish content n)"
proof -
  from assms(2,3) have "n - 1 < length (splitlines_from [] content)"
    by (simp add: splitlines_def)
  from nth_line_only_LF [OF assms(1) this] show ?thesis
    by (simp add: splitlines_def line_begin_def line_finish_def)
qed

text \<open>
  Every occurrence that the scan of a file adds is built from a rule of the registry and
  a span that \<open>finditer\<close> reported for that rule on the file's content.
\<close>

lemma extract_patterns_from_file_elements:
  assumes "p \<in> set (extract_patterns_from_file finditer repository_path patterns f)"
  shows "p \<in> set patterns \<or>
    (\<exists>content n d m. snd f = Some content \<and> (n, d) \<in> set pattern_definitions \<and>
       m \<in> set (finditer n content) \<and>
       p = build_pattern n d (fst f)
             (determine_language (full_path repository_path (fst f)))
             (determine_framework content (full_path repository_path (fst f))) content m)"
proof (cases "snd f")
  case None
  with assms show ?thesis by (simp add: extract_patterns_from_file_def)
next
  case (Some content)
  with assms have "p \<in> set patterns \<or>
      (\<exists>nd \<in> set pattern_definitions. \<exists>m \<in> set (finditer (fst nd) content).
         p = build_pattern (fst nd) (snd nd) (fst f)
               (determine_language (full_path repository_path (fst f)))
               (determine_framework content (full_path repository_path (fst f))) content m)"
    by (auto simp: extract_patterns_from_file_def Let_def split_def)
  then show ?thesis
  proof
    assume "p \<in> set patterns"
    then show ?thesis ..
  next
    assume "\<exists>nd \<in> set pattern_definitions. \<exists>m \<in> set (finditer (fst nd) content).
         p = build_pattern (fst nd) (snd nd) (fst f)
               (determine_language (full_path repository_path (fst f)))
               (determine_framework content (full_path repository_path (fst f))) content m"
    then obtain nd m where "nd \<in> set pattern_definitions" "m \<in> set (finditer (fst nd) content)"
      "p = build_pattern (fst nd) (snd nd) (fst f)
               (determine_language (full_path repository_path (fst f)))
               (determine_framework content (full_path repository_path (fst f))) content m"
      by blast
    with Some show ?thesis
      by (intro disjI2 exI [of _ content] exI [of _ "fst nd"] exI [of _ "snd nd"] exI [of _ m])
         simp
  qed
qed

section \<open>Context lines\<close>

text \<open>
  For a text whose only line boundaries are newlines, \<^verbatim>\<open>splitlines\<close> gives as
  many lines as \<open>num_lines\<close> counts, and they are the lines \<open>text_line\<close> cuts out
  of the text at the offsets of its newlines.
\<close>

lemma length_splitlines_from_only_LF:
  "only_LF T \<Longrightarrow>
   length (splitlines_from cur T) =
     count_list T LF + (if (if T = [] then cur = [] else last T = LF) then 0 else 1)"
proof (induction T arbitrary: cur)
  case Nil
  then show ?case by simp
next
  case (Cons c cs)
  from Cons.prems have lb: "is_linebreak c \<longrightarrow> c = LF" and cs: "only_LF cs"
    by (simp_all add: only_LF_Cons)
  from lb have ncr: "c \<noteq> CR" using is_linebreak_CR CR_neq_LF by auto
  show ?case
  proof (cases "c = LF")
    case True
    with ncr Cons.IH [OF cs, of "[]"] show ?thesis
      by (simp add: is_linebreak_LF)
  next
    case False
    with lb have nlb: "\<not> is_linebreak c" by auto
    from Cons.IH [OF cs, of "cur @ [c]"] False ncr nlb show ?thesis by simp
  qed
qed

lemma length_splitlines_only_LF: "only_LF T \<Longrightarrow> length (splitlines T) = num_lines T"
  by (simp add: splitlines_def num_lines_def length_splitlines_from_only_LF)

lemma splitlines_text_lines:
  assumes "only_LF T"
  shows "splitlines T = map (text_line T) [1 ..< num_lines T + 1]"
proof (rule nth_equalityI)
  show "length (splitlines T) = length (map (text_line T) [1 ..< num_lines T + 1])"
    by (simp add: length_splitlines_only_LF [OF assms] del: upt_Suc)
next
  fix i assume i: "i < length (splitlines T)"
  then have n: "1 \<le> i + 1" "i + 1 \<le> length (splitlines T)" by simp_all
  from splitlines_nth_line [OF assms n]
  have "splitlines T ! i = text_line T (i + 1)" by (simp add: text_line_def)
  moreover have "map (text_line T) [1 ..< num_lines T + 1] ! i = text_line T (i + 1)"
  proof -
    from i have lt: "1 + i < num_lines T + 1"
      by (simp add: length_splitlines_only_LF [OF assms])
    then have "i < length [1 ..< num_lines T + 1]" by (simp del: upt_Suc)
    then have "map (text_line T) [1 ..< num_lines T + 1] ! i =
        text_line T ([1 ..< num_lines T + 1] ! i)"
      by (rule nth_map)
    also from lt have "[1 ..< num_lines T + 1] ! i = 1 + i" by (rule nth_upt)
    finally show ?thesis by (simp only: add.commute)
  qed
  ultimately show "splitlines T ! i = map (text_line T) [1 ..< num_lines T + 1] ! i"
    by simp
qed

lemma take_upt_min: "take m [i ..< n] = [i ..< min (i + m) n]"
proof (cases "i + m \<le> n")
  case True
  then show ?thesis by (simp add: min_def)
next
  case False
  then have "length [i ..< n] \<le> m" by simp
  then have "take m [i ..< n] = [i ..< n]" by (rule take_all)
  with False show ?thesis by (simp add: min_def)
qed

lemma slice_map_upt:
  "py_slice (map f [1 ..< N + 1]) a b = map f [a + 1 ..< min (b + 1) (N + 1)]"
proof (cases "a \<le> b")
  case True
  have "py_slice (map f [1 ..< N + 1]) a b = map f (take (b - a) [1 + a ..< N + 1])"
    by (simp add: py_slice_def take_map drop_map)
  also have "take (b - a) [1 + a ..< N + 1] = [1 + a ..< min (1 + a + (b - a)) (N + 1)]"
    by (rule take_upt_min)
  also from True have "1 + a + (b - a) = b + 1" by simp
  finally show ?thesis by (simp add: add.commute)
next
  case False
  then show ?thesis by (simp add: py_slice_def)
qed


lemma only_LF_example: "only_LF example_content"
  by (simp add: only_LF_def example_content_def is_linebreak_def LF_def)

lemma example_text_lines:
  "text_line example_content 1 = ''l1''" "text_line example_content 2 = ''l2''"
  "text_line example_content 3 = ''l3''" "text_line example_content 5 = ''l5''"
  "text_line example_content 6 = ''l6''"
  by (simp_all add: text_line_def py_slice_def line_begin_def line_finish_def
      example_content_def LF_def eval_nat_numeral)

lemma example_num_lines: "num_lines example_content = 7"
  by (simp add: num_lines_def example_content_def LF_def)

text \<open>
  Claim C5 (as the code has it). In a file whose only line boundaries are newlines,
  \<^verbatim>\<open>context_before\<close> is the text of the two lines immediately before line
  \<open>line_start\<close> (lines \<open>line_start - 2\<close> and \<open>line_start - 1\<close>, fewer when there are
  not two lines before it), and \<^verbatim>\<open>context_after\<close> is the text of the two lines
  immediately after line \<open>line_end\<close> (lines \<open>line_end + 1\<close> and \<open>line_end + 2\<close>,
  fewer when the file ends before), each joined by newlines. The lines are the lines of
  the content as the line numbers count them.
\<close>

theorem context_is_two_text_lines:
  assumes "only_LF content"
  shows "(let p = build_pattern pattern_name pattern_def rel lang fw content (s, e)
          in context_before p =
               join [LF] (map (text_line content)
                            [max 1 (line_start p - 2) ..< line_start p]) \<and>
             context_after p =
               join [LF] (map (text_line content)
                            [line_end p + 1 ..< min (line_end p + 3) (num_lines content + 1)]))"
proof -
  let ?p = "build_pattern pattern_name pattern_def rel lang fw content (s, e)"
  let ?N = "num_lines content"
  define n where "n = count_newlines content s"
  define m where "m = count_newlines content e"
  have lines: "splitlines content = map (text_line content) [1 ..< ?N + 1]"
    by (rule splitlines_text_lines [OF assms])
  have len: "length (splitlines content) = ?N"
    by (rule length_splitlines_only_LF [OF assms])
  have nN: "n \<le> ?N"
    using count_newlines_le_lines [of content s] by (simp only: n_def len)
  have ls: "line_start ?p = n + 1" and le: "line_end ?p = m + 1"
    by (simp_all add: line_start_build_pattern line_end_build_pattern n_def m_def)
  have "context_before ?p = join [LF] (py_slice (splitlines content) (n + 1 - 3) (n + 1 - 1))"
    by (simp only: context_before_build_pattern n_def fst_conv)
  also have "py_slice (splitlines content) (n + 1 - 3) (n + 1 - 1) =
      map (text_line content) [n + 1 - 3 + 1 ..< min (n + 1 - 1 + 1) (?N + 1)]"
    by (simp only: lines slice_map_upt)
  also have "[n + 1 - 3 + 1 ..< min (n + 1 - 1 + 1) (?N + 1)] =
      [max 1 (n + 1 - 2) ..< n + 1]"
  proof -
    have a: "n + 1 - 3 + 1 = max 1 (n + 1 - 2)" by arith
    from nN have b: "min (n + 1 - 1 + 1) (?N + 1) = n + 1" by arith
    show ?thesis by (simp only: a b)
  qed
  finally have before: "context_before ?p =
      join [LF] (map (text_line content) [max 1 (line_start ?p - 2) ..< line_start ?p])"
    by (simp only: ls)
  have "context_after ?p =
      join [LF] (py_slice (splitlines content) (m + 1)
        (min (length (splitlines content)) (m + 1 + 2)))"
    by (simp only: context_after_build_pattern m_def snd_conv)
  also have "py_slice (splitlines content) (m + 1)
        (min (length (splitlines content)) (m + 1 + 2)) =
      map (text_line content) [m + 1 + 1 ..< min (min ?N (m + 1 + 2) + 1) (?N + 1)]"
    by (simp only: len) (simp only: lines slice_map_upt)
  also have "min (min ?N (m + 1 + 2) + 1) (?N + 1) = min (m + 1 + 3) (?N + 1)"
    by arith
  finally have after: "context_after ?p =
      join [LF] (map (text_line content)
        [line_end ?p + 1 ..< min (line_end ?p + 3) (?N + 1)])"
    by (simp only: le)
  show ?thesis
    unfolding Let_def by (intro conjI before after)
qed

text \<open>
  The match on line 4 of the file of seven lines: the context before it is lines 2 and 3,
  the context after it lines 5 and 6.
\<close>

theorem context_is_two_text_lines_witness:
  "only_LF example_content \<and>
   line_start example_occurrence = 4 \<and> line_end example_occurrence = 4 \<and>
   num_lines example_content = 7 \<and>
   map (text_line example_content) [2 ..< 4] = [''l2'', ''l3''] \<and>
   map (text_line example_content) [5 ..< 7] = [''l5'', ''l6''] \<and>
   context_before example_occurrence = ''l2'' @ [LF] @ ''l3'' \<and>
   context_after example_occurrence = ''l5'' @ [LF] @ ''l6''"
proof -
  have l4: "line_start example_occurrence = 4" "line_end example_occurrence = 4"
    by (simp_all add: example_occurrence_def line_start_build_pattern line_end_build_pattern
        example_line_numbers)
  have r1: "[max 1 (4 - 2) ..< 4] = [2, 3::nat]" by code_simp
  have r2: "[4 + 1 ..< min (4 + 3) (7 + 1)] = [5, 6::nat]" by code_simp
  have r3: "[2 ..< 4] = [2, 3::nat]" "[5 ..< 7] = [5, 6::nat]"
    by code_simp+
  note T = context_is_two_text_lines [OF only_LF_example, of "''console_statements''"
      example_rule "''src/a.ts''" "''typescript''" None 9 20,
      unfolded Let_def, folded example_occurrence_def]
  from T have "context_before example_occurrence =
      join [LF] (map (text_line example_content)
        [max 1 (line_start example_occurrence - 2) ..< line_start example_occurrence])"
    by (elim conjE)
  then have cb: "context_before example_occurrence = ''l2'' @ [LF] @ ''l3''"
    by (simp only: l4 r1 list.map example_text_lines join.simps)
  from T have "context_after example_occurrence =
      join [LF] (map (text_line example_content)
        [line_end example_occurrence + 1 ..<
           min (line_end example_occurrence + 3) (num_lines example_content + 1)])"
    by (elim conjE)
  then have ca: "context_after example_occurrence = ''l5'' @ [LF] @ ''l6''"
    by (simp only: l4 example_num_lines r2 list.map example_text_lines join.simps)
  have m1: "map (text_line example_content) [2 ..< 4] = [''l2'', ''l3'']"
    by (simp only: r3 list.map example_text_lines)
  have m2: "map (text_line example_content) [5 ..< 7] = [''l5'', ''l6'']"
    by (simp only: r3 list.map example_text_lines)
  show ?thesis
    by (intro conjI only_LF_example l4 example_num_lines m1 m2 cb ca)
qed

text \<open>
  Claim C5 as stated asks for three lines before the match. For the match on line 4 the
  context before it holds lines 2 and 3, not lines 1 to 3.
\<close>

theorem context_before_three_lines_counterexample:
  "line_start example_occurrence = 4 \<and>
   context_before example_occurrence = ''l2'' @ [LF] @ ''l3'' \<and>
   join [LF] (map (text_line example_content) [1, 2, 3]) =
     ''l1'' @ [LF] @ ''l2'' @ [LF] @ ''l3'' \<and>
   context_before example_occurrence \<noteq>
     join [LF] (map (text_line example_content) [1, 2, 3])"
proof -
  have ls: "line_start example_occurrence = 4"
    by (simp add: example_occurrence_def line_start_build_pattern example_line_numbers)
  have cb: "context_before example_occurrence = ''l2'' @ [LF] @ ''l3''"
    by (simp add: example_occurrence_def context_before_build_pattern example_line_numbers
        example_lines py_slice_def)
  have three: "join [LF] (map (text_line example_content) [1, 2, 3]) =
     ''l1'' @ [LF] @ ''l2'' @ [LF] @ ''l3''"
    by (simp only: list.map example_text_lines join.simps)
  from ls cb three show ?thesis by simp
qed

text \<open>
  A form feed is a line boundary for \<^verbatim>\<open>splitlines\<close> and not for the line numbers.
  In a file with a form feed on line 1 and the match on line 2, the context after the
  match starts with the line of the match itself.
\<close>

lemma context_with_form_feed:
  "line_start (build_pattern ''console_statements'' example_rule ''src/a.ts'' ''typescript''
      None form_feed_content (4, 15)) = 2 \<and>
   text_line form_feed_content 2 = ''console.log'' \<and>
   context_after (build_pattern ''console_statements'' example_rule ''src/a.ts''
      ''typescript'' None form_feed_content (4, 15)) = ''console.log'' @ [LF] @ ''z''"
proof -
  have n: "count_newlines form_feed_content 4 = 1" "count_newlines form_feed_content 15 = 1"
    by (simp_all add: count_newlines_def form_feed_content_def LF_def)
  have l: "splitlines form_feed_content = [''a'', ''b'', ''console.log'', ''z'']"
    by (simp add: splitlines_def form_feed_content_def LF_def CR_def is_linebreak_def)
  have t: "text_line form_feed_content 2 = ''console.log''"
    by (simp add: text_line_def py_slice_def line_begin_def line_finish_def
        form_feed_content_def LF_def eval_nat_numeral)
  show ?thesis
    by (simp add: line_start_build_pattern context_after_build_pattern n l t py_slice_def)
qed

end
